theory Spec2Isabelle
  imports Main "HOL-Library.AList" "HOL-Library.Log_Nat"
begin

text \<open>
  A shallow embedding of the two request handlers of the plugin-usage telemetry service:
  the user event recorder (\<^verbatim>\<open>src/pages/api/kintone/user.ts\<close>) and the
  counter/summary reader. Both work on one remote key-value store. The store, the clock,
  the fallback endpoint and the console are made explicit: every function takes the
  current world and returns the new one, and a rejected promise is the value \<open>Inl e\<close>.
\<close>

section \<open>Host ids\<close>

text \<open>
  \<^verbatim>\<open>hostname.replace(/(\.s)?\.(cybozu|kintone)\.com/, '')\<close> replaces the leftmost match
  only (the pattern has no \<^verbatim>\<open>g\<close> flag and no anchor). \<open>match_domain\<close> matches
  \<^verbatim>\<open>\.(cybozu|kintone)\.com\<close> at the start of a string and returns what follows the match;
  \<open>match_here\<close> puts the greedy optional group \<^verbatim>\<open>(\.s)?\<close> in front of it, with the
  backtracking of the regular expression engine; \<open>replace_first\<close> scans for the leftmost
  position that matches.
\<close>

definition match_domain :: "string \<Rightarrow> string option" where
  "match_domain s =
     (if take 11 s = ''.cybozu.com'' then Some (drop 11 s)
      else if take 12 s = ''.kintone.com'' then Some (drop 12 s)
      else None)"

definition match_here :: "string \<Rightarrow> string option" where
  "match_here s =
     (if take 2 s = ''.s''
      then (case match_domain (drop 2 s) of
              Some r \<Rightarrow> Some r
            | None \<Rightarrow> match_domain s)
      else match_domain s)"

fun replace_first :: "string \<Rightarrow> string" where
  "replace_first [] = []"
| "replace_first (c # cs) =
     (case match_here (c # cs) of
        Some r \<Rightarrow> r
      | None \<Rightarrow> c # replace_first cs)"

text \<open>\<^verbatim>\<open>.replace(/\./g, '_dot_')\<close>: every dot, left to right.\<close>

fun replace_dots :: "string \<Rightarrow> string" where
  "replace_dots [] = []"
| "replace_dots (c # cs) =
     (if c = CHR ''.'' then ''_dot_'' @ replace_dots cs else c # replace_dots cs)"

text \<open>
  \<^verbatim>\<open>body.hostname || '___undefined'\<close>: an absent hostname and the empty string are both
  falsy.
\<close>

definition hostname_or_default :: "string option \<Rightarrow> string" where
  "hostname_or_default h =
     (case h of None \<Rightarrow> ''___undefined''
      | Some s \<Rightarrow> if s = [] then ''___undefined'' else s)"

definition formattedHostname :: "string option \<Rightarrow> string" where
  "formattedHostname h = replace_dots (replace_first (hostname_or_default h))"

text \<open>
  The host id as the specification words it: one of the four platform suffixes is stripped
  from the end of the hostname (the longer ones first), then every dot is replaced.
\<close>

definition ends_with :: "string \<Rightarrow> string \<Rightarrow> bool" where
  "ends_with suf s = (length suf \<le> length s \<and> drop (length s - length suf) s = suf)"

definition strip_suffix :: "string \<Rightarrow> string \<Rightarrow> string option" where
  "strip_suffix suf s =
     (if ends_with suf s then Some (take (length s - length suf) s) else None)"

definition strip_platform_suffix :: "string \<Rightarrow> string" where
  "strip_platform_suffix s =
     (case strip_suffix ''.s.cybozu.com'' s of Some r \<Rightarrow> r | None \<Rightarrow>
      case strip_suffix ''.s.kintone.com'' s of Some r \<Rightarrow> r | None \<Rightarrow>
      case strip_suffix ''.cybozu.com'' s of Some r \<Rightarrow> r | None \<Rightarrow>
      case strip_suffix ''.kintone.com'' s of Some r \<Rightarrow> r | None \<Rightarrow> s)"

definition spec_host_id :: "string option \<Rightarrow> string" where
  "spec_host_id h = replace_dots (strip_platform_suffix (hostname_or_default h))"

text \<open>
  A hostname in which the platform pattern matches, if anywhere, only up to the end of the
  string.
\<close>

fun platform_only_at_end :: "string \<Rightarrow> bool" where
  "platform_only_at_end [] = True"
| "platform_only_at_end (c # cs) =
     ((case match_here (c # cs) of None \<Rightarrow> True | Some r \<Rightarrow> r = [])
      \<and> platform_only_at_end cs)"

section \<open>Time\<close>

text \<open>
  The part of luxon the handlers use. A \<open>DateTime\<close> is an instant in epoch milliseconds
  and the system zone, which gives the offset from UTC in minutes at every instant (so
  the offset may change, as with daylight saving). \<^verbatim>\<open>plus({ hours: 9 })\<close> adds the
  milliseconds to the instant; the local date is taken with the zone's offset at the new
  instant. An ISO date \<^verbatim>\<open>YYYY-MM-DD\<close> is represented by the day it names, counted
  from 1970-01-01; \<^verbatim>\<open>toUnixInteger\<close> is \<^verbatim>\<open>Math.floor(ts / 1000)\<close>.
\<close>

datatype isodate = ISODate int

record DateTime =
  ts :: int
  zone_offset :: "int \<Rightarrow> int"

record env =
  clock :: int
  zone :: "int \<Rightarrow> int"
  GAS_END_POINT :: "string option"
  fetch_rejects :: bool

definition DateTime_local :: "env \<Rightarrow> DateTime" where
  "DateTime_local e = \<lparr>ts = clock e, zone_offset = zone e\<rparr>"

definition plus_hours :: "int \<Rightarrow> DateTime \<Rightarrow> DateTime" where
  "plus_hours h dt = dt\<lparr>ts := ts dt + h * 3600000\<rparr>"

definition toISODate :: "DateTime \<Rightarrow> isodate" where
  "toISODate dt = ISODate ((ts dt + zone_offset dt (ts dt) * 60000) div 86400000)"

definition toUnixInteger :: "DateTime \<Rightarrow> int" where
  "toUnixInteger dt = ts dt div 1000"

section \<open>The store\<close>

text \<open>
  The five collections under \<^verbatim>\<open>kintone/\<close> as the declared types of the handlers
  have them (\<^verbatim>\<open>Record<string, number>\<close> for the counters, \<^verbatim>\<open>string[]\<close> for the
  plugin names): each an association list from the key of a child to its value. A child
  that holds nothing is an absent key, and \<^verbatim>\<open>snapshot.exists()\<close> is \<open>\<noteq> None\<close> (for a
  whole collection: \<open>\<noteq> []\<close>). Counters are JavaScript numbers that hold integers.
\<close>

record user =
  user_name :: "string option"
  user_pluginNames :: "string list"

record summary =
  unixTime :: int
  numUsers :: nat
  counter :: int

record rtdb =
  kintone_users :: "(string \<times> user) list"
  kintone_counter :: "(string \<times> int) list"
  kintone_installDate :: "(string \<times> isodate) list"
  kintone_lastModified :: "(string \<times> isodate) list"
  kintone_summary :: "(isodate \<times> summary) list"

datatype error = StoreError | TypeError | SyntaxError | FetchError | PathError

text \<open>
  JavaScript numbers are doubles. \<open>round_to_double\<close> is the double nearest to an
  integer (ties to the even significand; the integers up to \<open>2 ^ 53\<close> are doubles, and
  overflow to infinity, beyond \<open>2 ^ 1023\<close>, is left out), so that \<open>js_plus a b\<close> is
  \<^verbatim>\<open>a + b\<close> on numbers that hold integers.
\<close>

definition round_to_double :: "int \<Rightarrow> int" where
  "round_to_double x =
     (if \<bar>x\<bar> \<le> 2 ^ 53 then x
      else
        (let a = nat \<bar>x\<bar>;
             e = floorlog 2 a - 53;
             q = a div 2 ^ e;
             r = a mod 2 ^ e;
             half = 2 ^ (e - 1);
             m = (if half < r \<or> (r = half \<and> odd q) then q + 1 else q)
         in sgn x * int (m * 2 ^ e)))"

definition js_plus :: "int \<Rightarrow> int \<Rightarrow> int" where
  "js_plus a b = round_to_double (a + b)"

text \<open>The messages written to the console, by the text of the message.\<close>

datatype log =
    RtdbUpdateError error
  | SummaryError
  | UserUpdateFailed
  | CounterUpdateFailed
  | InstallDateUpdateFailed
  | LastModifiedUpdateFailed
  | CounterFetchFailed
  | GasUrlMissing

record ExpectedRequestBody =
  hostname :: "string option"
  pluginNames :: "string list option"
  page :: "string option"
  email :: "string option"
  appName :: "string option"

text \<open>
  What \<^verbatim>\<open>JSON.parse\<close> returns. Nothing checks it against the declared type at run time,
  so next to \<^verbatim>\<open>null\<close> and the objects of the declared type there are the objects whose
  \<^verbatim>\<open>hostname\<close> is some JSON value other than a string: \<open>ObjectHostnameNotString\<close>
  says whether that value is truthy, and gives the other fields (its \<open>hostname\<close> field is
  not read). Values of \<^verbatim>\<open>pluginNames\<close> other than an array of strings are left out.
\<close>

datatype json_body =
    Null
  | Object ExpectedRequestBody
  | ObjectHostnameNotString bool ExpectedRequestBody

text \<open>
  A call of \<^verbatim>\<open>fetch\<close> on the fallback endpoint. The payload is
  \<^verbatim>\<open>{...body, from: 'ribbit-next-app'}\<close>: the fields of the parsed body (spreading
  \<^verbatim>\<open>null\<close> adds none) and the fixed field.
\<close>

record gas_request =
  url :: string
  http_method :: string
  payload_body :: json_body
  payload_from :: string

text \<open>
  The world a handler runs in. \<open>faults\<close> is the failure schedule of the store: each
  entry is the number of store operations that succeed before the next one fails, and
  the empty schedule means that no operation fails. \<open>unhandled\<close> collects the
  rejections of promises that nothing awaits. \<open>beyond\<close> is set when a call addresses
  a node that is not a child of a collection (the collection itself, or a node below a
  child): such a node has no place in \<open>rtdb\<close>, and from then on \<open>db\<close> and \<open>logs\<close> do
  not tell what the store and the console hold.
\<close>

record world =
  db :: rtdb
  faults :: "nat list"
  logs :: "log list"
  posts :: "gas_request list"
  unhandled :: "error list"
  beyond :: bool

definition attempt :: "world \<Rightarrow> bool \<times> world" where
  "attempt w =
     (case faults w of
        [] \<Rightarrow> (True, w)
      | 0 # fs \<Rightarrow> (False, w\<lparr>faults := fs\<rparr>)
      | Suc n # fs \<Rightarrow> (True, w\<lparr>faults := n # fs\<rparr>))"

text \<open>
  \<^verbatim>\<open>get\<close>, \<^verbatim>\<open>set\<close> and \<^verbatim>\<open>update\<close> of the database client, on a path given by
  the function that reads it or writes it. An operation that fails leaves the store as
  it was.
\<close>

definition rtdb_get :: "(rtdb \<Rightarrow> 'a) \<Rightarrow> world \<Rightarrow> (error + 'a) \<times> world" where
  "rtdb_get read w =
     (let (ok, w') = attempt w
      in if ok then (Inr (read (db w')), w') else (Inl StoreError, w'))"

definition rtdb_set :: "(rtdb \<Rightarrow> rtdb) \<Rightarrow> world \<Rightarrow> (error + unit) \<times> world" where
  "rtdb_set write w =
     (let (ok, w') = attempt w
      in if ok then (Inr (), w'\<lparr>db := write (db w')\<rparr>) else (Inl StoreError, w'))"

definition rtdb_update :: "(rtdb \<Rightarrow> rtdb) \<Rightarrow> world \<Rightarrow> (error + unit) \<times> world" where
  "rtdb_update merge w =
     (let (ok, w') = attempt w
      in if ok then (Inr (), w'\<lparr>db := merge (db w')\<rparr>) else (Inl StoreError, w'))"

text \<open>
  \<^verbatim>\<open>ref(rtdb, `kintone/users/${hostname}`)\<close> and its like, by the host id spliced into the
  path. The client library throws on a path with one of the characters
  \<^verbatim>\<open>. # $ [ ]\<close> or a control character; otherwise it splits the path at the slashes
  and drops the empty pieces. With exactly one piece the reference is to that child of the
  collection; with none it is to the collection itself, and with more to a node below a
  child.
\<close>

definition invalid_path_char :: "char \<Rightarrow> bool" where
  "invalid_path_char c =
     (c \<in> set ''.#$[]'' \<or> of_char c < (32 :: nat) \<or> of_char c = (127 :: nat))"

fun pieces :: "string \<Rightarrow> string \<Rightarrow> string list" where
  "pieces cur [] = (if cur = [] then [] else [cur])"
| "pieces cur (c # cs) =
     (if c = CHR ''/''
      then (if cur = [] then pieces [] cs else cur # pieces [] cs)
      else pieces (cur @ [c]) cs)"

datatype reference = RefThrows | RefElsewhere | RefChild string

definition rtdb_ref :: "string \<Rightarrow> reference" where
  "rtdb_ref h =
     (if list_ex invalid_path_char h then RefThrows
      else
        (case pieces [] h of
           [] \<Rightarrow> RefElsewhere
         | [k] \<Rightarrow> RefChild k
         | k # k' # ks \<Rightarrow> RefElsewhere))"

text \<open>What a child of a collection holds, and the writes of one child.\<close>

definition users_at :: "string \<Rightarrow> rtdb \<Rightarrow> user option" where
  "users_at h d = map_of (kintone_users d) h"

definition counter_at :: "string \<Rightarrow> rtdb \<Rightarrow> int option" where
  "counter_at h d = map_of (kintone_counter d) h"

definition installDate_at :: "string \<Rightarrow> rtdb \<Rightarrow> isodate option" where
  "installDate_at h d = map_of (kintone_installDate d) h"

definition lastModified_at :: "string \<Rightarrow> rtdb \<Rightarrow> isodate option" where
  "lastModified_at h d = map_of (kintone_lastModified d) h"

definition summary_at :: "isodate \<Rightarrow> rtdb \<Rightarrow> summary option" where
  "summary_at k d = map_of (kintone_summary d) k"

definition put_user :: "string \<Rightarrow> user \<Rightarrow> rtdb \<Rightarrow> rtdb" where
  "put_user h u d = d\<lparr>kintone_users := AList.update h u (kintone_users d)\<rparr>"

text \<open>
  \<^verbatim>\<open>update(reference, { pluginNames })\<close> merges: the other fields of the record stay.
\<close>

definition merge_pluginNames :: "string \<Rightarrow> string list \<Rightarrow> rtdb \<Rightarrow> rtdb" where
  "merge_pluginNames h ps d =
     (case users_at h d of
        Some u \<Rightarrow> put_user h (u\<lparr>user_pluginNames := ps\<rparr>) d
      | None \<Rightarrow> put_user h \<lparr>user_name = None, user_pluginNames = ps\<rparr> d)"

definition put_counter :: "string \<Rightarrow> int \<Rightarrow> rtdb \<Rightarrow> rtdb" where
  "put_counter h v d = d\<lparr>kintone_counter := AList.update h v (kintone_counter d)\<rparr>"

definition put_installDate :: "string \<Rightarrow> isodate \<Rightarrow> rtdb \<Rightarrow> rtdb" where
  "put_installDate h v d = d\<lparr>kintone_installDate := AList.update h v (kintone_installDate d)\<rparr>"

definition put_lastModified :: "string \<Rightarrow> isodate \<Rightarrow> rtdb \<Rightarrow> rtdb" where
  "put_lastModified h v d = d\<lparr>kintone_lastModified := AList.update h v (kintone_lastModified d)\<rparr>"

definition put_summary :: "isodate \<Rightarrow> summary \<Rightarrow> rtdb \<Rightarrow> rtdb" where
  "put_summary k v d = d\<lparr>kintone_summary := AList.update k v (kintone_summary d)\<rparr>"

text \<open>
  \<^verbatim>\<open>try { await f } catch (error) { console.error(message) }\<close>: the error is dropped, the
  message is logged, and what \<open>f\<close> did before it failed stays done.
\<close>

definition catch_log :: "log \<Rightarrow> (error + unit) \<times> world \<Rightarrow> world" where
  "catch_log l r =
     (case r of
        (Inl e, w) \<Rightarrow> w\<lparr>logs := logs w @ [l]\<rparr>
      | (Inr u, w) \<Rightarrow> w)"

section \<open>The recorder\<close>

definition or_empty :: "'a list option \<Rightarrow> 'a list" where
  "or_empty xs = (case xs of None \<Rightarrow> [] | Some ys \<Rightarrow> ys)"

text \<open>
  \<^verbatim>\<open>[...new Set(xs)]\<close>: the elements of \<open>xs\<close> in the order of their first occurrence.
\<close>

definition uniq :: "'a list \<Rightarrow> 'a list" where
  "uniq xs = rev (remdups (rev xs))"

text \<open>
  A step on the reference of a host id: \<^verbatim>\<open>ref\<close> throws inside the step, or the step
  runs on the child it refers to. A reference elsewhere is where the model stops (see
  \<open>beyond\<close>).
\<close>

definition with_ref ::
  "string \<Rightarrow> (string \<Rightarrow> world \<Rightarrow> (error + unit) \<times> world) \<Rightarrow> world \<Rightarrow> (error + unit) \<times> world" where
  "with_ref h step w =
     (case rtdb_ref h of
        RefThrows \<Rightarrow> (Inl PathError, w)
      | RefElsewhere \<Rightarrow> (Inr (), w\<lparr>beyond := True\<rparr>)
      | RefChild k \<Rightarrow> step k w)"

text \<open>
  \<^verbatim>\<open>updateUser\<close>, \<^verbatim>\<open>updateCounter\<close> and \<^verbatim>\<open>updateInstallDate\<close>: the reference is made
  first (inside the function, so inside the guarded step), then the function works on
  the child it refers to; the functions \<open>\<dots>_at\<close> are that part.
\<close>

definition updateUser_at ::
  "string \<Rightarrow> ExpectedRequestBody \<Rightarrow> world \<Rightarrow> (error + unit) \<times> world" where
  "updateUser_at reference body w =
     (case rtdb_get (users_at reference) w of
        (Inl e, w1) \<Rightarrow> (Inl e, w1)
      | (Inr snapshot, w1) \<Rightarrow>
          (case snapshot of
             None \<Rightarrow>
               rtdb_set (put_user reference
                 \<lparr>user_name = Some [], user_pluginNames = or_empty (pluginNames body)\<rparr>) w1
           | Some data \<Rightarrow>
               (let requested = or_empty (pluginNames body);
                    registered = user_pluginNames data;
                    noChanges = list_all (\<lambda>plugin. plugin \<in> set registered) requested
                in if \<not> noChanges
                   then rtdb_update
                          (merge_pluginNames reference (uniq (requested @ registered))) w1
                   else (Inr (), w1))))"

definition updateUser :: "string \<Rightarrow> ExpectedRequestBody \<Rightarrow> world \<Rightarrow> (error + unit) \<times> world" where
  "updateUser h body w = with_ref h (\<lambda>reference. updateUser_at reference body) w"

definition updateCounter_at :: "string \<Rightarrow> world \<Rightarrow> (error + unit) \<times> world" where
  "updateCounter_at counterRef w =
     (case rtdb_get (counter_at counterRef) w of
        (Inl e, w1) \<Rightarrow> (Inl e, w1)
      | (Inr counterSnapshot, w1) \<Rightarrow>
          (case counterSnapshot of
             Some v \<Rightarrow> rtdb_set (put_counter counterRef (js_plus v 1)) w1
           | None \<Rightarrow> rtdb_set (put_counter counterRef 1) w1))"

definition updateCounter :: "string \<Rightarrow> world \<Rightarrow> (error + unit) \<times> world" where
  "updateCounter h w = with_ref h updateCounter_at w"

definition updateInstallDate_at ::
  "string \<Rightarrow> DateTime \<Rightarrow> world \<Rightarrow> (error + unit) \<times> world" where
  "updateInstallDate_at installDateRef now w =
     (case rtdb_get (installDate_at installDateRef) w of
        (Inl e, w1) \<Rightarrow> (Inl e, w1)
      | (Inr installDateSnapshot, w1) \<Rightarrow>
          (if installDateSnapshot = None
           then rtdb_set (put_installDate installDateRef (toISODate now)) w1
           else (Inr (), w1)))"

definition updateInstallDate :: "string \<Rightarrow> DateTime \<Rightarrow> world \<Rightarrow> (error + unit) \<times> world" where
  "updateInstallDate h now w =
     with_ref h (\<lambda>installDateRef. updateInstallDate_at installDateRef now) w"

text \<open>
  Lines 51 to 55 of \<^verbatim>\<open>updateRtdb\<close>, outside the guarded steps: reading
  \<^verbatim>\<open>body.hostname\<close> of \<^verbatim>\<open>null\<close> is a TypeError, and so is \<^verbatim>\<open>hostname.replace\<close> on a
  truthy value that is not a string (\<open>None\<close> here); a falsy value gives the default.
\<close>

definition formatted_of :: "json_body \<Rightarrow> (string \<times> ExpectedRequestBody) option" where
  "formatted_of body =
     (case body of
        Null \<Rightarrow> None
      | Object b \<Rightarrow> Some (formattedHostname (hostname b), b)
      | ObjectHostnameNotString truthy b \<Rightarrow>
          if truthy then None else Some (formattedHostname None, b))"

text \<open>\<^verbatim>\<open>updateRtdb\<close>: each of the four steps has its own \<^verbatim>\<open>try\<close>/\<^verbatim>\<open>catch\<close>.\<close>

definition updateRtdb :: "env \<Rightarrow> json_body \<Rightarrow> world \<Rightarrow> (error + unit) \<times> world" where
  "updateRtdb e body w =
     (case formatted_of body of
        None \<Rightarrow> (Inl TypeError, w)
      | Some (h, b) \<Rightarrow>
          (let now = DateTime_local e;
               w1 = catch_log UserUpdateFailed (updateUser h b w);
               w2 = catch_log CounterUpdateFailed (updateCounter h w1);
               w3 = catch_log InstallDateUpdateFailed (updateInstallDate h now w2);
               w4 = catch_log LastModifiedUpdateFailed
                      (with_ref h (\<lambda>reference.
                         rtdb_set (put_lastModified reference (toISODate now))) w3)
           in (Inr (), w4)))"

definition updateSummary :: "env \<Rightarrow> world \<Rightarrow> (error + unit) \<times> world" where
  "updateSummary e w =
     (let now = plus_hours 9 (DateTime_local e);
          key = toISODate now
      in case rtdb_get (summary_at key) w of
           (Inl err, w1) \<Rightarrow> (Inl err, w1)
         | (Inr summarySnapshot, w1) \<Rightarrow>
             (if summarySnapshot \<noteq> None then (Inr (), w1)
              else case rtdb_get kintone_counter w1 of
                     (Inl err, w2) \<Rightarrow> (Inl err, w2)
                   | (Inr counterSnapshot, w2) \<Rightarrow>
                       (if counterSnapshot = []
                        then (Inr (), w2\<lparr>logs := logs w2 @ [CounterFetchFailed]\<rparr>)
                        else
                          (let counters = map snd counterSnapshot;
                               total = foldl js_plus 0 counters
                           in rtdb_set (put_summary key
                                \<lparr>unixTime = toUnixInteger now,
                                 numUsers = length counters,
                                 counter = total\<rparr>) w2))))"

definition postToGAS :: "env \<Rightarrow> json_body \<Rightarrow> world \<Rightarrow> (error + unit) \<times> world" where
  "postToGAS e body w =
     (case GAS_END_POINT e of
        None \<Rightarrow> (Inr (), w\<lparr>logs := logs w @ [GasUrlMissing]\<rparr>)
      | Some endpoint \<Rightarrow>
          (if endpoint = [] then (Inr (), w\<lparr>logs := logs w @ [GasUrlMissing]\<rparr>)
           else
             (let w1 = w\<lparr>posts := posts w @
                        [\<lparr>url = endpoint, http_method = ''POST'', payload_body = body,
                          payload_from = ''ribbit-next-app''\<rparr>]\<rparr>
              in if fetch_rejects e then (Inl FetchError, w1) else (Inr (), w1))))"

text \<open>
  The request as the handler reads it: the method, and the body text by what
  \<^verbatim>\<open>JSON.parse\<close> makes of it: a SyntaxError, \<^verbatim>\<open>null\<close>, an object of the declared type
  \<^verbatim>\<open>ExpectedRequestBody\<close>, or an object whose hostname is not a string.
\<close>

datatype raw_body =
    Malformed
  | JsonNull
  | JsonObject ExpectedRequestBody
  | JsonHostnameNotString bool ExpectedRequestBody

record request =
  req_method :: string
  req_body :: raw_body

definition JSON_parse :: "raw_body \<Rightarrow> error + json_body" where
  "JSON_parse t =
     (case t of
        Malformed \<Rightarrow> Inl SyntaxError
      | JsonNull \<Rightarrow> Inr Null
      | JsonObject b \<Rightarrow> Inr (Object b)
      | JsonHostnameNotString truthy b \<Rightarrow> Inr (ObjectHostnameNotString truthy b))"

text \<open>
  The \<^verbatim>\<open>result\<close> texts of the responses; \<open>UnexpectedErrorWith e\<close> is the text that ends
  with \<^verbatim>\<open>JSON.stringify(e)\<close>.
\<close>

datatype message =
    AddedToDatabase
  | UnexpectedError
  | UnexpectedErrorWith error
  | InvalidParameter
  | FetchComplete

record response =
  status :: nat
  result :: message
  data_counter :: "int option"
  data_numUsers :: "nat option"

datatype thrown = ApiExecutionError

record outcome =
  sent :: "response option"
  raised :: "thrown option"

definition respond :: "nat \<Rightarrow> message \<Rightarrow> response" where
  "respond code m = \<lparr>status = code, result = m, data_counter = None, data_numUsers = None\<rparr>"

text \<open>
  A promise that nothing awaits: its rejection is handled by nobody.
\<close>

definition unawaited :: "(error + unit) \<times> world \<Rightarrow> world" where
  "unawaited r =
     (case r of
        (Inl err, w) \<Rightarrow> w\<lparr>unhandled := unhandled w @ [err]\<rparr>
      | (Inr u, w) \<Rightarrow> w)"

text \<open>
  The recorder's handler. \<^verbatim>\<open>updateSummary()\<close> is called without \<^verbatim>\<open>await\<close>: the call
  returns a promise and cannot throw, so the \<^verbatim>\<open>catch\<close> around it never runs. The call
  only starts the summary step; its store operations and its console output come after
  the synchronous part of what the handler does next (the response, or the call of
  \<^verbatim>\<open>postToGAS\<close>), which is where they stand here. They are taken to be done when the
  handler is.
\<close>

definition user_handler :: "env \<Rightarrow> request \<Rightarrow> world \<Rightarrow> outcome \<times> world" where
  "user_handler e req w =
     (if req_method req = ''POST''
      then
        (case JSON_parse (req_body req) of
           Inl err \<Rightarrow>
             (\<lparr>sent = Some (respond 500 (UnexpectedErrorWith err)),
               raised = Some ApiExecutionError\<rparr>, w)
         | Inr body \<Rightarrow>
             (let (causedError, w1) =
                    (case updateRtdb e body w of
                       (Inl err, w') \<Rightarrow> (True, w'\<lparr>logs := logs w' @ [RtdbUpdateError err]\<rparr>)
                     | (Inr u, w') \<Rightarrow> (False, w'))
              in if \<not> causedError
                 then (\<lparr>sent = Some (respond 200 AddedToDatabase), raised = None\<rparr>,
                       unawaited (updateSummary e w1))
                 else
                   (case postToGAS e body w1 of
                      (Inl err, w2) \<Rightarrow>
                        (\<lparr>sent = Some (respond 500 (UnexpectedErrorWith err)),
                          raised = Some ApiExecutionError\<rparr>,
                         unawaited (updateSummary e w2))
                    | (Inr u, w2) \<Rightarrow>
                        (\<lparr>sent = Some (respond 500 UnexpectedError), raised = None\<rparr>,
                         unawaited (updateSummary e w2)))))
      else (\<lparr>sent = None, raised = None\<rparr>, w))"

section \<open>The reader\<close>

text \<open>
  \<^verbatim>\<open>getResponseFromRtdb\<close>. \<^verbatim>\<open>Object.values(null)\<close> throws a TypeError when the counter
  collection is empty. The summary step is awaited inside its own \<^verbatim>\<open>try\<close>.
\<close>

definition getResponseFromRtdb :: "env \<Rightarrow> world \<Rightarrow> (error + response) \<times> world" where
  "getResponseFromRtdb e w =
     (case rtdb_get kintone_counter w of
        (Inl err, w1) \<Rightarrow> (Inl err, w1)
      | (Inr snapshot, w1) \<Rightarrow>
          (if snapshot = [] then (Inl TypeError, w1)
           else
             (let counters = map snd snapshot;
                  total = foldl js_plus 0 counters;
                  now = DateTime_local e;
                  key = toISODate now;
                  w2 = catch_log SummaryError
                         (case rtdb_get (summary_at key) w1 of
                            (Inl err, w') \<Rightarrow> (Inl err, w')
                          | (Inr summarySnapshot, w') \<Rightarrow>
                              (if summarySnapshot = None
                               then rtdb_set (put_summary key
                                      \<lparr>unixTime = toUnixInteger now,
                                       numUsers = length counters,
                                       counter = total\<rparr>) w'
                               else (Inr (), w')))
              in (Inr \<lparr>status = 200, result = FetchComplete,
                       data_counter = Some total, data_numUsers = Some (length counters)\<rparr>,
                  w2))))"

definition counter_handler :: "env \<Rightarrow> request \<Rightarrow> world \<Rightarrow> outcome \<times> world" where
  "counter_handler e req w =
     (if req_method req \<noteq> ''GET''
      then (\<lparr>sent = Some (respond 400 InvalidParameter), raised = None\<rparr>, w)
      else
        (case getResponseFromRtdb e w of
           (Inl err, w1) \<Rightarrow>
             (\<lparr>sent = Some (respond 500 (UnexpectedErrorWith err)), raised = None\<rparr>, w1)
         | (Inr responseData, w1) \<Rightarrow> (\<lparr>sent = Some responseData, raised = None\<rparr>, w1)))"

section \<open>Sequences of calls\<close>

text \<open>
  Calls that do not overlap: each one starts in the world the one before left, at its
  own time.
\<close>

datatype call = Recorder env request | Reader env request

fun run_call :: "call \<Rightarrow> world \<Rightarrow> world" where
  "run_call (Recorder e req) w = snd (user_handler e req w)"
| "run_call (Reader e req) w = snd (counter_handler e req w)"

fun run_calls :: "call list \<Rightarrow> world \<Rightarrow> world" where
  "run_calls [] w = w"
| "run_calls (c # cs) w = run_calls cs (run_call c w)"

text \<open>
  The host id of a call: the id the recorder derives from the request, when the request
  is a POST whose body parses and gets as far as the guarded steps.
\<close>

fun host_id_of :: "call \<Rightarrow> string option" where
  "host_id_of (Recorder e req) =
     (if req_method req = ''POST''
      then (case JSON_parse (req_body req) of
              Inl err \<Rightarrow> None
            | Inr body \<Rightarrow> map_option fst (formatted_of body))
      else None)"
| "host_id_of (Reader e req) = None"

text \<open>
  A call that addresses no node that is not a child of a collection: the model describes
  what such calls do to the store.
\<close>

definition within_model :: "call \<Rightarrow> bool" where
  "within_model c =
     (case host_id_of c of
        None \<Rightarrow> True
      | Some h \<Rightarrow> rtdb_ref h \<noteq> RefElsewhere)"

text \<open>
  A recorder call for host \<open>h\<close>: a POST whose body is an object of the declared type
  with a hostname of host id \<open>h\<close>, and the plugin list it carries.
\<close>

fun records_host :: "string \<Rightarrow> call \<Rightarrow> bool" where
  "records_host h (Recorder e req) =
     (req_method req = ''POST'' \<and>
      (case req_body req of
         JsonObject b \<Rightarrow> formattedHostname (hostname b) = h
       | Malformed \<Rightarrow> False
       | JsonNull \<Rightarrow> False
       | JsonHostnameNotString truthy b \<Rightarrow> False))"
| "records_host h (Reader e req) = False"

fun plugins_of :: "call \<Rightarrow> string list" where
  "plugins_of (Recorder e req) =
     (case req_body req of
        JsonObject b \<Rightarrow> or_empty (pluginNames b)
      | Malformed \<Rightarrow> []
      | JsonNull \<Rightarrow> []
      | JsonHostnameNotString truthy b \<Rightarrow> or_empty (pluginNames b))"
| "plugins_of (Reader e req) = []"

section \<open>What a call does when no store operation fails\<close>

text \<open>
  The store after each step of a call in which no store operation fails, as functions
  of the store before it: the branches of the source functions without their error
  paths. They are what the lemmas on failure-free calls rewrite the handlers to.
\<close>

definition user_step :: "string \<Rightarrow> ExpectedRequestBody \<Rightarrow> rtdb \<Rightarrow> rtdb" where
  "user_step h body d =
     (case users_at h d of
        None \<Rightarrow>
          put_user h \<lparr>user_name = Some [], user_pluginNames = or_empty (pluginNames body)\<rparr> d
      | Some data \<Rightarrow>
          (if list_all (\<lambda>plugin. plugin \<in> set (user_pluginNames data)) (or_empty (pluginNames body))
           then d
           else merge_pluginNames h
                  (uniq (or_empty (pluginNames body) @ user_pluginNames data)) d))"

definition counter_step :: "string \<Rightarrow> rtdb \<Rightarrow> rtdb" where
  "counter_step h d =
     (case counter_at h d of
        Some v \<Rightarrow> put_counter h (js_plus v 1) d
      | None \<Rightarrow> put_counter h 1 d)"

definition installDate_step :: "string \<Rightarrow> isodate \<Rightarrow> rtdb \<Rightarrow> rtdb" where
  "installDate_step h today d =
     (if installDate_at h d = None then put_installDate h today d else d)"

definition snapshot_of :: "DateTime \<Rightarrow> rtdb \<Rightarrow> summary" where
  "snapshot_of now d =
     \<lparr>unixTime = toUnixInteger now,
      numUsers = length (map snd (kintone_counter d)),
      counter = foldl js_plus 0 (map snd (kintone_counter d))\<rparr>"

definition summary_step :: "DateTime \<Rightarrow> rtdb \<Rightarrow> rtdb" where
  "summary_step now d =
     (if summary_at (toISODate now) d = None \<and> kintone_counter d \<noteq> []
      then put_summary (toISODate now) (snapshot_of now d) d
      else d)"

text \<open>The plugin names stored for a host, in the stored order.\<close>

definition stored_pluginNames :: "string \<Rightarrow> rtdb \<Rightarrow> string list" where
  "stored_pluginNames h d =
     (case users_at h d of None \<Rightarrow> [] | Some u \<Rightarrow> user_pluginNames u)"

text \<open>The four steps on the child \<open>k\<close> of each collection, and the whole call.\<close>

definition host_step :: "env \<Rightarrow> string \<Rightarrow> ExpectedRequestBody \<Rightarrow> rtdb \<Rightarrow> rtdb" where
  "host_step e k body d =
     (let today = toISODate (DateTime_local e)
      in put_lastModified k today
           (installDate_step k today (counter_step k (user_step k body d))))"

definition recorder_step :: "env \<Rightarrow> string \<Rightarrow> ExpectedRequestBody \<Rightarrow> rtdb \<Rightarrow> rtdb" where
  "recorder_step e k body d =
     summary_step (plus_hours 9 (DateTime_local e)) (host_step e k body d)"

text \<open>
  A collection is an object: it has one entry for a key. \<open>one_entry_per_key\<close> says so
  of the association lists of a store.
\<close>

definition one_entry_per_key :: "rtdb \<Rightarrow> bool" where
  "one_entry_per_key d =
     (distinct (map fst (kintone_users d)) \<and> distinct (map fst (kintone_counter d))
      \<and> distinct (map fst (kintone_installDate d))
      \<and> distinct (map fst (kintone_lastModified d))
      \<and> distinct (map fst (kintone_summary d)))"

text \<open>The plugin names stored for a host, as a set; none when the host has no record.\<close>

definition registered_plugins :: "string \<Rightarrow> rtdb \<Rightarrow> string set" where
  "registered_plugins h d =
     (case users_at h d of None \<Rightarrow> {} | Some u \<Rightarrow> set (user_pluginNames u))"

text \<open>
  The writes the handlers can make, each with the check that guards it in the source.
\<close>

inductive write_step :: "rtdb \<Rightarrow> rtdb \<Rightarrow> bool" where
  create_user: "users_at h d = None \<Longrightarrow> write_step d (put_user h u d)"
| merge_user: "users_at h d = Some u \<Longrightarrow>
     write_step d (merge_pluginNames h (uniq (ps @ user_pluginNames u)) d)"
| bump_counter: "write_step d (counter_step h d)"
| first_installDate: "installDate_at h d = None \<Longrightarrow> write_step d (put_installDate h x d)"
| stamp_lastModified: "write_step d (put_lastModified h x d)"
| first_summary: "summary_at (toISODate now) d = None \<Longrightarrow>
     write_step d (put_summary (toISODate now) (snapshot_of now d) d)"

abbreviation evolves :: "rtdb \<Rightarrow> rtdb \<Rightarrow> bool" where
  "evolves \<equiv> write_step\<^sup>*\<^sup>*"

text \<open>Worlds and requests to run the handlers on.\<close>

definition empty_rtdb :: rtdb where
  "empty_rtdb =
     \<lparr>kintone_users = [], kintone_counter = [], kintone_installDate = [],
      kintone_lastModified = [], kintone_summary = []\<rparr>"

definition fresh_world :: world where
  "fresh_world =
     \<lparr>db = empty_rtdb, faults = [], logs = [], posts = [], unhandled = [], beyond = False\<rparr>"

text \<open>16:00 on 1970-01-01 in a zone with no offset at any time, the fallback endpoint configured.\<close>

definition afternoon :: env where
  "afternoon =
     \<lparr>clock = 57600000, zone = (\<lambda>t. 0), GAS_END_POINT = Some ''https://gas.example/exec'',
      fetch_rejects = False\<rparr>"

text \<open>09:00 on the next day, in the same zone.\<close>

definition next_morning :: env where
  "next_morning =
     \<lparr>clock = 118800000, zone = (\<lambda>t. 0), GAS_END_POINT = Some ''https://gas.example/exec'',
      fetch_rejects = False\<rparr>"

definition post_of :: "raw_body \<Rightarrow> request" where
  "post_of t = \<lparr>req_method = ''POST'', req_body = t\<rparr>"

definition body_of :: "string \<Rightarrow> string list \<Rightarrow> ExpectedRequestBody" where
  "body_of host plugins =
     \<lparr>hostname = Some host, pluginNames = Some plugins, page = None, email = None,
      appName = None\<rparr>"

section \<open>Lemmas on host ids\<close>

lemma ends_with_iff: "ends_with suf s \<longleftrightarrow> (\<exists>p. s = p @ suf)"
proof
  assume "ends_with suf s"
  then have "s = take (length s - length suf) s @ suf"
    by (metis append_take_drop_id ends_with_def)
  then show "\<exists>p. s = p @ suf" ..
next
  assume "\<exists>p. s = p @ suf"
  then show "ends_with suf s" by (auto simp: ends_with_def)
qed

lemma ends_with_Cons:
  "ends_with suf (c # cs) \<longleftrightarrow> suf = c # cs \<or> ends_with suf cs"
  unfolding ends_with_iff by (auto simp: Cons_eq_append_conv)

lemma take_strip_Cons:
  "ends_with suf cs \<Longrightarrow>
   take (length (c # cs) - length suf) (c # cs) = c # take (length cs - length suf) cs"
  by (simp add: ends_with_def Suc_diff_le)

lemma whole_from_take_drop: "take n s = p \<Longrightarrow> drop n s = [] \<Longrightarrow> s = p"
  by (metis append_take_drop_id append_Nil2)

lemma match_domain_whole:
  "match_domain s = Some [] \<longleftrightarrow> s = ''.cybozu.com'' \<or> s = ''.kintone.com''"
proof
  assume h: "match_domain s = Some []"
  show "s = ''.cybozu.com'' \<or> s = ''.kintone.com''"
  proof (cases "take 11 s = ''.cybozu.com''")
    case True
    with h have "drop 11 s = []" by (simp add: match_domain_def)
    with True show ?thesis using whole_from_take_drop by blast
  next
    case False
    with h have a: "take 12 s = ''.kintone.com''" and b: "drop 12 s = []"
      by (auto simp: match_domain_def split: if_splits)
    then show ?thesis using whole_from_take_drop by blast
  qed
next
  assume "s = ''.cybozu.com'' \<or> s = ''.kintone.com''"
  then show "match_domain s = Some []" by (auto simp: match_domain_def)
qed

lemma dot_s_no_domain: "take 2 s = ''.s'' \<Longrightarrow> match_domain s = None"
proof -
  assume a: "take 2 s = ''.s''"
  then obtain r where "s = CHR ''.'' # CHR ''s'' # r"
    by (metis append_take_drop_id append_Cons append_Nil)
  then show ?thesis by (simp add: match_domain_def)
qed

lemma match_here_whole:
  "match_here s = Some [] \<longleftrightarrow>
     s = ''.cybozu.com'' \<or> s = ''.kintone.com'' \<or> s = ''.s.cybozu.com'' \<or> s = ''.s.kintone.com''"
proof (cases "take 2 s = ''.s''")
  case True
  then obtain r where s: "s = CHR ''.'' # CHR ''s'' # r"
    by (metis append_take_drop_id append_Cons append_Nil)
  have "match_here s = match_domain r"
    using True dot_s_no_domain [OF True] s by (simp add: match_here_def split: option.splits)
  then show ?thesis using s by (simp add: match_domain_whole)
next
  case False
  then have "match_here s = match_domain s" by (simp add: match_here_def)
  moreover have "s \<noteq> ''.s.cybozu.com''" "s \<noteq> ''.s.kintone.com''" using False by auto
  ultimately show ?thesis by (simp add: match_domain_whole)
qed

lemma strip_suffix_self: "strip_suffix s s = Some []"
  by (simp add: strip_suffix_def ends_with_def)

lemma strip_suffix_Cons:
  "suf \<noteq> c # cs \<Longrightarrow> strip_suffix suf (c # cs) = map_option ((#) c) (strip_suffix suf cs)"
  using take_strip_Cons [of suf cs c]
  by (simp add: strip_suffix_def ends_with_Cons del: length_Cons)

lemma strip_whole:
  "match_here s = Some [] \<Longrightarrow> strip_platform_suffix s = []"
  unfolding match_here_whole strip_platform_suffix_def
  by (elim disjE) (simp_all add: strip_suffix_self, simp_all add: strip_suffix_def ends_with_def)

lemma strip_Cons:
  assumes "match_here (c # cs) = None"
  shows "strip_platform_suffix (c # cs) = c # strip_platform_suffix cs"
proof -
  have "match_here (c # cs) \<noteq> Some []" using assms by simp
  then have ne: "''.cybozu.com'' \<noteq> c # cs" "''.kintone.com'' \<noteq> c # cs"
    "''.s.cybozu.com'' \<noteq> c # cs" "''.s.kintone.com'' \<noteq> c # cs"
    unfolding match_here_whole by metis+
  show ?thesis
    unfolding strip_platform_suffix_def
      strip_suffix_Cons [OF ne(1)] strip_suffix_Cons [OF ne(2)]
      strip_suffix_Cons [OF ne(3)] strip_suffix_Cons [OF ne(4)]
    by (simp split: option.splits)
qed

lemma replace_first_is_strip:
  "platform_only_at_end s \<Longrightarrow> replace_first s = strip_platform_suffix s"
proof (induction s)
  case Nil
  show ?case by (simp add: strip_platform_suffix_def strip_suffix_def ends_with_def)
next
  case (Cons c cs)
  show ?case
  proof (cases "match_here (c # cs)")
    case None
    with Cons show ?thesis by (simp add: strip_Cons)
  next
    case (Some r)
    with Cons.prems have "r = []" by simp
    with Some show ?thesis by (simp add: strip_whole)
  qed
qed

section \<open>Lemmas on the store and the handlers\<close>

subsection \<open>Store operations\<close>

lemma attempt_healthy: "faults w = [] \<Longrightarrow> attempt w = (True, w)"
  by (simp add: attempt_def)

lemma rtdb_get_healthy: "faults w = [] \<Longrightarrow> rtdb_get r w = (Inr (r (db w)), w)"
  by (simp add: rtdb_get_def attempt_healthy)

lemma rtdb_set_healthy: "faults w = [] \<Longrightarrow> rtdb_set f w = (Inr (), w\<lparr>db := f (db w)\<rparr>)"
  by (simp add: rtdb_set_def attempt_healthy)

lemma rtdb_update_healthy: "faults w = [] \<Longrightarrow> rtdb_update f w = (Inr (), w\<lparr>db := f (db w)\<rparr>)"
  by (simp add: rtdb_update_def attempt_healthy)

lemma attempt_frame:
  assumes "attempt w = (ok, w')"
  shows "db w' = db w" "logs w' = logs w" "posts w' = posts w" "unhandled w' = unhandled w"
  using assms by (auto simp: attempt_def split: list.splits nat.splits)

lemma rtdb_get_cases:
  obtains (failed) w' where "rtdb_get r w = (Inl StoreError, w')" "db w' = db w"
      "logs w' = logs w" "posts w' = posts w" "unhandled w' = unhandled w"
  | (succeeded) w' where "rtdb_get r w = (Inr (r (db w)), w')" "db w' = db w"
      "logs w' = logs w" "posts w' = posts w" "unhandled w' = unhandled w"
proof (cases "attempt w")
  case (Pair ok w')
  note f = attempt_frame [OF Pair]
  show ?thesis
  proof (cases ok)
    case True
    with Pair f show ?thesis by (intro succeeded [of w']) (simp_all add: rtdb_get_def)
  next
    case False
    with Pair f show ?thesis by (intro failed [of w']) (simp_all add: rtdb_get_def)
  qed
qed

lemma rtdb_set_cases:
  obtains (failed) w' where "rtdb_set f w = (Inl StoreError, w')" "db w' = db w"
      "logs w' = logs w" "posts w' = posts w" "unhandled w' = unhandled w"
  | (succeeded) w' where "rtdb_set f w = (Inr (), w')" "db w' = f (db w)"
      "logs w' = logs w" "posts w' = posts w" "unhandled w' = unhandled w"
proof (cases "attempt w")
  case (Pair ok w')
  note fr = attempt_frame [OF Pair]
  show ?thesis
  proof (cases ok)
    case True
    with Pair fr show ?thesis by (intro succeeded [of "w'\<lparr>db := f (db w')\<rparr>"]) (simp_all add: rtdb_set_def)
  next
    case False
    with Pair fr show ?thesis by (intro failed [of w']) (simp_all add: rtdb_set_def)
  qed
qed

lemma rtdb_update_is_set: "rtdb_update f w = rtdb_set f w"
  by (simp add: rtdb_update_def rtdb_set_def)

lemma catch_log_frame [simp]:
  "db (catch_log l r) = db (snd r)" "posts (catch_log l r) = posts (snd r)"
  "unhandled (catch_log l r) = unhandled (snd r)" "faults (catch_log l r) = faults (snd r)"
  by (auto simp: catch_log_def split: prod.splits sum.splits)

lemma catch_log_ok [simp]: "catch_log l (Inr u, w) = w"
  by (simp add: catch_log_def)

subsection \<open>Failure-free steps\<close>

lemma updateUser_at_healthy:
  "faults w = [] \<Longrightarrow> updateUser_at h b w = (Inr (), w\<lparr>db := user_step h b (db w)\<rparr>)"
  by (simp add: updateUser_at_def user_step_def rtdb_get_healthy rtdb_set_healthy
      rtdb_update_healthy Let_def split: option.splits)

lemma updateCounter_at_healthy:
  "faults w = [] \<Longrightarrow> updateCounter_at h w = (Inr (), w\<lparr>db := counter_step h (db w)\<rparr>)"
  by (simp add: updateCounter_at_def counter_step_def rtdb_get_healthy rtdb_set_healthy
      split: option.splits)

lemma updateInstallDate_at_healthy:
  "faults w = [] \<Longrightarrow>
   updateInstallDate_at h now w = (Inr (), w\<lparr>db := installDate_step h (toISODate now) (db w)\<rparr>)"
  by (simp add: updateInstallDate_at_def installDate_step_def rtdb_get_healthy rtdb_set_healthy)

subsection \<open>References\<close>

lemma pieces_no_slash:
  "CHR ''/'' \<notin> set h \<Longrightarrow> pieces cur h = (if cur @ h = [] then [] else [cur @ h])"
  by (induction h arbitrary: cur) auto

lemma rtdb_ref_segment:
  "\<not> list_ex invalid_path_char h \<Longrightarrow> CHR ''/'' \<notin> set h \<Longrightarrow> h \<noteq> [] \<Longrightarrow> rtdb_ref h = RefChild h"
  by (simp add: rtdb_ref_def pieces_no_slash)

lemma with_ref_child [simp]: "rtdb_ref h = RefChild k \<Longrightarrow> with_ref h step w = step k w"
  by (simp add: with_ref_def)

lemma with_ref_throws [simp]:
  "rtdb_ref h = RefThrows \<Longrightarrow> with_ref h step w = (Inl PathError, w)"
  by (simp add: with_ref_def)

lemma with_ref_elsewhere [simp]:
  "rtdb_ref h = RefElsewhere \<Longrightarrow> with_ref h step w = (Inr (), w\<lparr>beyond := True\<rparr>)"
  by (simp add: with_ref_def)

lemma updateRtdb_healthy:
  "faults w = [] \<Longrightarrow> formatted_of body = Some (h, b) \<Longrightarrow> rtdb_ref h = RefChild k \<Longrightarrow>
   updateRtdb e body w = (Inr (), w\<lparr>db := host_step e k b (db w)\<rparr>)"
  by (simp add: updateRtdb_def host_step_def Let_def updateUser_def updateCounter_def
      updateInstallDate_def updateUser_at_healthy updateCounter_at_healthy
      updateInstallDate_at_healthy rtdb_set_healthy)

lemma updateRtdb_throws:
  "formatted_of body = Some (h, b) \<Longrightarrow> rtdb_ref h = RefThrows \<Longrightarrow>
   updateRtdb e body w =
     (Inr (), w\<lparr>logs := logs w @ [UserUpdateFailed, CounterUpdateFailed,
                   InstallDateUpdateFailed, LastModifiedUpdateFailed]\<rparr>)"
  by (simp add: updateRtdb_def Let_def updateUser_def updateCounter_def
      updateInstallDate_def catch_log_def)

lemma updateSummary_healthy:
  "faults w = [] \<Longrightarrow>
   updateSummary e w =
     (Inr (),
      if summary_at (toISODate (plus_hours 9 (DateTime_local e))) (db w) = None
         \<and> kintone_counter (db w) = []
      then w\<lparr>logs := logs w @ [CounterFetchFailed]\<rparr>
      else w\<lparr>db := summary_step (plus_hours 9 (DateTime_local e)) (db w)\<rparr>)"
  by (simp add: updateSummary_def summary_step_def snapshot_of_def Let_def rtdb_get_healthy
      rtdb_set_healthy)

lemma host_step_counter_nonempty: "kintone_counter (host_step e k b d) \<noteq> []"
  by (simp add: host_step_def Let_def put_lastModified_def installDate_step_def
      put_installDate_def counter_step_def put_counter_def split: option.splits)

lemma unawaited_ok [simp]: "unawaited (Inr u, w) = w"
  by (simp add: unawaited_def)

lemma user_handler_healthy:
  assumes "faults w = []" "req_method req = ''POST''" "req_body req = JsonObject b"
    "rtdb_ref (formattedHostname (hostname b)) = RefChild k"
  shows "user_handler e req w =
     (\<lparr>sent = Some (respond 200 AddedToDatabase), raised = None\<rparr>,
      w\<lparr>db := recorder_step e k b (db w)\<rparr>)"
  using assms
  by (simp add: user_handler_def JSON_parse_def formatted_of_def updateRtdb_healthy
      updateSummary_healthy host_step_counter_nonempty recorder_step_def)

subsection \<open>Every change of the store is a guarded write\<close>

lemma evolves_step: "evolves a b \<Longrightarrow> write_step b c \<Longrightarrow> evolves a c"
  by (rule rtranclp.rtrancl_into_rtrancl)

lemma evolves_updateUser_at: "evolves (db w) (db (snd (updateUser_at h b w)))"
proof (cases rule: rtdb_get_cases [of "users_at h" w])
  case (failed w1)
  then show ?thesis by (simp add: updateUser_at_def)
next
  case (succeeded w1)
  show ?thesis
  proof (cases "users_at h (db w)")
    case None
    show ?thesis
    proof (cases rule: rtdb_set_cases [of "put_user h
        \<lparr>user_name = Some [], user_pluginNames = or_empty (pluginNames b)\<rparr>" w1])
      case (failed w2)
      with succeeded None show ?thesis by (simp add: updateUser_at_def)
    next
      case (succeeded w2)
      with \<open>rtdb_get (users_at h) w = _\<close> \<open>db w1 = db w\<close> None show ?thesis
        by (simp add: updateUser_at_def write_step.create_user r_into_rtranclp)
    qed
  next
    case (Some data)
    show ?thesis
    proof (cases "list_all (\<lambda>plugin. plugin \<in> set (user_pluginNames data)) (or_empty (pluginNames b))")
      case True
      with succeeded Some show ?thesis by (simp add: updateUser_at_def)
    next
      case False
      show ?thesis
      proof (cases rule: rtdb_set_cases [of "merge_pluginNames h
          (uniq (or_empty (pluginNames b) @ user_pluginNames data))" w1])
        case (failed w2)
        with \<open>rtdb_get (users_at h) w = _\<close> \<open>db w1 = db w\<close> Some False show ?thesis
          by (simp add: updateUser_at_def rtdb_update_is_set)
      next
        case (succeeded w2)
        with \<open>rtdb_get (users_at h) w = _\<close> \<open>db w1 = db w\<close> Some False show ?thesis
          by (simp add: updateUser_at_def rtdb_update_is_set write_step.merge_user r_into_rtranclp)
      qed
    qed
  qed
qed

lemma evolves_updateCounter_at: "evolves (db w) (db (snd (updateCounter_at h w)))"
proof (cases rule: rtdb_get_cases [of "counter_at h" w])
  case (failed w1)
  then show ?thesis by (simp add: updateCounter_at_def)
next
  case g: (succeeded w1)
  let ?v = "case counter_at h (db w) of Some v \<Rightarrow> js_plus v 1 | None \<Rightarrow> 1"
  have u: "updateCounter_at h w = rtdb_set (put_counter h ?v) w1"
    using g by (simp add: updateCounter_at_def split: option.splits)
  have c: "counter_step h (db w) = put_counter h ?v (db w)"
    by (simp add: counter_step_def split: option.splits)
  show ?thesis
  proof (cases rule: rtdb_set_cases [of "put_counter h ?v" w1])
    case (failed w2)
    with g u show ?thesis by simp
  next
    case (succeeded w2)
    with g u c show ?thesis
      by (simp add: r_into_rtranclp) (metis write_step.bump_counter r_into_rtranclp)
  qed
qed

lemma evolves_updateInstallDate_at: "evolves (db w) (db (snd (updateInstallDate_at h now w)))"
proof (cases rule: rtdb_get_cases [of "installDate_at h" w])
  case (failed w1)
  then show ?thesis by (simp add: updateInstallDate_at_def)
next
  case g: (succeeded w1)
  show ?thesis
  proof (cases "installDate_at h (db w) = None")
    case False
    with g show ?thesis by (auto simp: updateInstallDate_at_def)
  next
    case True
    show ?thesis
    proof (cases rule: rtdb_set_cases [of "put_installDate h (toISODate now)" w1])
      case (failed w2)
      with g True show ?thesis by (simp add: updateInstallDate_at_def)
    next
      case (succeeded w2)
      with g True show ?thesis
        by (simp add: updateInstallDate_at_def write_step.first_installDate r_into_rtranclp)
    qed
  qed
qed

lemma evolves_lastModified: "evolves (db w) (db (snd (rtdb_set (put_lastModified h x) w)))"
  by (cases rule: rtdb_set_cases [of "put_lastModified h x" w])
     (simp_all add: write_step.stamp_lastModified r_into_rtranclp)

lemma evolves_with_ref:
  assumes "\<And>k v. evolves (db v) (db (snd (step k v)))"
  shows "evolves (db w) (db (snd (with_ref h step w)))"
  using assms by (cases "rtdb_ref h") (simp_all add: with_ref_def)

lemma evolves_updateUser: "evolves (db w) (db (snd (updateUser h b w)))"
  unfolding updateUser_def by (rule evolves_with_ref) (rule evolves_updateUser_at)

lemma evolves_updateCounter: "evolves (db w) (db (snd (updateCounter h w)))"
  unfolding updateCounter_def by (rule evolves_with_ref) (rule evolves_updateCounter_at)

lemma evolves_updateInstallDate: "evolves (db w) (db (snd (updateInstallDate h now w)))"
  unfolding updateInstallDate_def by (rule evolves_with_ref) (rule evolves_updateInstallDate_at)

lemma evolves_setLastModified:
  "evolves (db w) (db (snd (with_ref h (\<lambda>reference. rtdb_set (put_lastModified reference x)) w)))"
  by (rule evolves_with_ref) (rule evolves_lastModified)

lemma evolves_updateRtdb: "evolves (db w) (db (snd (updateRtdb e body w)))"
proof (cases "formatted_of body")
  case None
  then show ?thesis by (simp add: updateRtdb_def)
next
  case (Some hb)
  obtain h b where hb: "hb = (h, b)" by (cases hb)
  let ?now = "DateTime_local e"
  let ?w1 = "catch_log UserUpdateFailed (updateUser h b w)"
  let ?w2 = "catch_log CounterUpdateFailed (updateCounter h ?w1)"
  let ?w3 = "catch_log InstallDateUpdateFailed (updateInstallDate h ?now ?w2)"
  let ?w4 = "catch_log LastModifiedUpdateFailed
     (with_ref h (\<lambda>reference. rtdb_set (put_lastModified reference (toISODate ?now))) ?w3)"
  have "evolves (db w) (db ?w1)"
    using evolves_updateUser [where w = w] by simp
  also have "evolves (db ?w1) (db ?w2)"
    using evolves_updateCounter [where w = ?w1] by simp
  also have "evolves (db ?w2) (db ?w3)"
    using evolves_updateInstallDate [where w = ?w2] by simp
  also have "evolves (db ?w3) (db ?w4)"
    using evolves_setLastModified [where w = ?w3] by simp
  finally show ?thesis using Some hb by (simp add: updateRtdb_def Let_def)
qed

lemma snapshot_of_alt:
  "snapshot_of now d =
     \<lparr>unixTime = toUnixInteger now, numUsers = length (kintone_counter d),
      counter = foldl js_plus 0 (map snd (kintone_counter d))\<rparr>"
  by (simp add: snapshot_of_def)

lemma evolves_updateSummary: "evolves (db w) (db (snd (updateSummary e w)))"
proof -
  let ?now = "plus_hours 9 (DateTime_local e)"
  let ?key = "toISODate ?now"
  show ?thesis
  proof (cases rule: rtdb_get_cases [of "summary_at ?key" w])
    case (failed w1)
    then show ?thesis by (simp add: updateSummary_def Let_def)
  next
    case g1: (succeeded w1)
    show ?thesis
    proof (cases "summary_at ?key (db w) = None")
      case False
      with g1 show ?thesis by (auto simp: updateSummary_def Let_def)
    next
      case absent: True
      show ?thesis
      proof (cases rule: rtdb_get_cases [of kintone_counter w1])
        case (failed w2)
        with g1 absent show ?thesis by (simp add: updateSummary_def Let_def)
      next
        case g2: (succeeded w2)
        show ?thesis
        proof (cases "kintone_counter (db w) = []")
          case True
          with g1 g2 absent show ?thesis by (simp add: updateSummary_def Let_def)
        next
          case False
          show ?thesis
          proof (cases rule: rtdb_set_cases [of "put_summary ?key (snapshot_of ?now (db w))" w2])
            case (failed w3)
            with g1 g2 absent False show ?thesis
              by (simp add: updateSummary_def Let_def snapshot_of_def)
          next
            case (succeeded w3)
            with g1 g2 absent False show ?thesis
              by (simp add: updateSummary_def Let_def snapshot_of_alt [symmetric]
                  write_step.first_summary r_into_rtranclp)
          qed
        qed
      qed
    qed
  qed
qed

lemma evolves_getResponseFromRtdb: "evolves (db w) (db (snd (getResponseFromRtdb e w)))"
proof -
  let ?now = "DateTime_local e"
  let ?key = "toISODate ?now"
  show ?thesis
  proof (cases rule: rtdb_get_cases [of kintone_counter w])
    case (failed w1)
    then show ?thesis by (simp add: getResponseFromRtdb_def)
  next
    case g1: (succeeded w1)
    show ?thesis
    proof (cases "kintone_counter (db w) = []")
      case True
      with g1 show ?thesis by (simp add: getResponseFromRtdb_def)
    next
      case nonempty: False
      show ?thesis
      proof (cases rule: rtdb_get_cases [of "summary_at ?key" w1])
        case (failed w2)
        with g1 nonempty show ?thesis by (simp add: getResponseFromRtdb_def Let_def)
      next
        case g2: (succeeded w2)
        show ?thesis
        proof (cases "summary_at ?key (db w) = None")
          case False
          with g1 g2 nonempty show ?thesis by (auto simp: getResponseFromRtdb_def Let_def)
        next
          case True
          show ?thesis
          proof (cases rule: rtdb_set_cases [of "put_summary ?key (snapshot_of ?now (db w))" w2])
            case (failed w3)
            with g1 g2 nonempty True show ?thesis
              by (simp add: getResponseFromRtdb_def Let_def snapshot_of_def)
          next
            case (succeeded w3)
            with g1 g2 nonempty True show ?thesis
              by (simp add: getResponseFromRtdb_def Let_def snapshot_of_alt [symmetric]
                  write_step.first_summary r_into_rtranclp)
          qed
        qed
      qed
    qed
  qed
qed

lemma postToGAS_db [simp]: "db (snd (postToGAS e body w)) = db w"
  by (simp add: postToGAS_def Let_def split: option.splits)

lemma postToGAS_dbD: "postToGAS e body w = (r, w') \<Longrightarrow> db w' = db w"
  by (metis postToGAS_db snd_conv)

lemma unawaited_db [simp]: "db (unawaited r) = db (snd r)"
  by (auto simp: unawaited_def split: prod.splits sum.splits)

lemma evolves_user_handler: "evolves (db w) (db (snd (user_handler e req w)))"
proof (cases "req_method req = ''POST''")
  case False
  then show ?thesis by (simp add: user_handler_def)
next
  case post: True
  show ?thesis
  proof (cases "JSON_parse (req_body req)")
    case (Inl err)
    with post show ?thesis by (simp add: user_handler_def)
  next
    case (Inr body)
    obtain r1 v1 where u: "updateRtdb e body w = (r1, v1)" by (cases "updateRtdb e body w")
    define w1 where "w1 = (case r1 of Inl err \<Rightarrow> v1\<lparr>logs := logs v1 @ [RtdbUpdateError err]\<rparr>
                            | Inr u \<Rightarrow> v1)"
    define w2 where "w2 = (case r1 of Inl err \<Rightarrow> snd (postToGAS e body w1) | Inr u \<Rightarrow> w1)"
    have "evolves (db w) (db v1)" using evolves_updateRtdb [of w e body] u by simp
    moreover have "db w2 = db v1" by (simp add: w2_def w1_def split: sum.splits)
    moreover have "evolves (db w2) (db (snd (updateSummary e w2)))"
      by (rule evolves_updateSummary)
    ultimately have "evolves (db w) (db (snd (updateSummary e w2)))" by simp
    moreover have "db (snd (user_handler e req w)) = db (snd (updateSummary e w2))"
      using post Inr u
      by (auto simp: user_handler_def w1_def w2_def Let_def split: sum.splits prod.splits)
    ultimately show ?thesis by simp
  qed
qed

lemma evolves_counter_handler: "evolves (db w) (db (snd (counter_handler e req w)))"
  using evolves_getResponseFromRtdb [of w e]
  by (auto simp: counter_handler_def split: prod.splits sum.splits)

lemma evolves_run_call: "evolves (db w) (db (run_call c w))"
  by (cases c) (simp_all add: evolves_user_handler evolves_counter_handler)

lemma evolves_run_calls: "evolves (db w) (db (run_calls cs w))"
proof (induction cs arbitrary: w)
  case Nil
  show ?case by simp
next
  case (Cons c cs)
  have "evolves (db w) (db (run_call c w))" by (rule evolves_run_call)
  also have "evolves (db (run_call c w)) (db (run_calls cs (run_call c w)))" by (rule Cons.IH)
  finally show ?case by simp
qed

subsection \<open>What a guarded write keeps\<close>

lemma write_step_installDate:
  "write_step d d' \<Longrightarrow> installDate_at h d = Some x \<Longrightarrow> installDate_at h d' = Some x"
  by (induction rule: write_step.induct)
     (auto simp: installDate_at_def put_user_def merge_pluginNames_def counter_step_def
       put_counter_def put_installDate_def put_lastModified_def put_summary_def update_conv'
       split: option.splits)

lemma evolves_installDate:
  "evolves d d' \<Longrightarrow> installDate_at h d = Some x \<Longrightarrow> installDate_at h d' = Some x"
  by (induction rule: rtranclp_induct) (auto intro: write_step_installDate)

lemma write_step_summary:
  "write_step d d' \<Longrightarrow> summary_at k d = Some s \<Longrightarrow> summary_at k d' = Some s"
  by (induction rule: write_step.induct)
     (auto simp: summary_at_def put_user_def merge_pluginNames_def counter_step_def
       put_counter_def put_installDate_def put_lastModified_def put_summary_def update_conv'
       split: option.splits)

lemma evolves_summary:
  "evolves d d' \<Longrightarrow> summary_at k d = Some s \<Longrightarrow> summary_at k d' = Some s"
  by (induction rule: rtranclp_induct) (auto intro: write_step_summary)

lemma set_uniq [simp]: "set (uniq xs) = set xs"
  by (simp add: uniq_def)

lemma distinct_uniq [simp]: "distinct (uniq xs)"
  by (simp add: uniq_def)

lemma write_step_plugins:
  "write_step d d' \<Longrightarrow> registered_plugins h d \<subseteq> registered_plugins h d'"
  by (induction rule: write_step.induct)
     (auto simp: registered_plugins_def users_at_def put_user_def merge_pluginNames_def
       counter_step_def put_counter_def put_installDate_def put_lastModified_def
       put_summary_def update_conv' split: option.splits if_splits)

lemma evolves_plugins:
  "evolves d d' \<Longrightarrow> registered_plugins h d \<subseteq> registered_plugins h d'"
  by (induction rule: rtranclp_induct) (auto dest: write_step_plugins)

subsection \<open>What the steps leave alone\<close>

lemma rtdb_get_frame [simp]:
  "db (snd (rtdb_get r w)) = db w" "logs (snd (rtdb_get r w)) = logs w"
  "posts (snd (rtdb_get r w)) = posts w" "unhandled (snd (rtdb_get r w)) = unhandled w"
  by (cases rule: rtdb_get_cases [of r w]; simp)+

lemma rtdb_set_frame [simp]:
  "logs (snd (rtdb_set f w)) = logs w"
  "posts (snd (rtdb_set f w)) = posts w" "unhandled (snd (rtdb_set f w)) = unhandled w"
  by (cases rule: rtdb_set_cases [of f w]; simp)+

lemma rtdb_getD:
  "rtdb_get r w = (x, w') \<Longrightarrow>
   db w' = db w \<and> logs w' = logs w \<and> posts w' = posts w \<and> unhandled w' = unhandled w"
  by (cases rule: rtdb_get_cases [of r w]) auto

lemma rtdb_setD:
  "rtdb_set f w = (x, w') \<Longrightarrow>
   logs w' = logs w \<and> posts w' = posts w \<and> unhandled w' = unhandled w"
  by (cases rule: rtdb_set_cases [of f w]) auto

lemma updateUser_at_frame:
  "logs (snd (updateUser_at h b w)) = logs w \<and> posts (snd (updateUser_at h b w)) = posts w
   \<and> unhandled (snd (updateUser_at h b w)) = unhandled w"
  by (auto simp: updateUser_at_def Let_def rtdb_update_is_set
      split: prod.splits sum.splits option.splits dest!: rtdb_getD rtdb_setD)

lemma updateCounter_at_frame:
  "logs (snd (updateCounter_at h w)) = logs w \<and> posts (snd (updateCounter_at h w)) = posts w
   \<and> unhandled (snd (updateCounter_at h w)) = unhandled w"
  by (auto simp: updateCounter_at_def Let_def
      split: prod.splits sum.splits option.splits dest!: rtdb_getD rtdb_setD)

lemma updateInstallDate_at_frame:
  "logs (snd (updateInstallDate_at h now w)) = logs w
   \<and> posts (snd (updateInstallDate_at h now w)) = posts w
   \<and> unhandled (snd (updateInstallDate_at h now w)) = unhandled w"
  by (auto simp: updateInstallDate_at_def Let_def
      split: prod.splits sum.splits option.splits dest!: rtdb_getD rtdb_setD)

lemma with_ref_frame:
  assumes "\<And>k v. posts (snd (step k v)) = posts v \<and> unhandled (snd (step k v)) = unhandled v"
  shows "posts (snd (with_ref h step w)) = posts w
    \<and> unhandled (snd (with_ref h step w)) = unhandled w"
  using assms by (cases "rtdb_ref h") (simp_all add: with_ref_def)

lemma updateRtdb_frame:
  "posts (snd (updateRtdb e body w)) = posts w
   \<and> unhandled (snd (updateRtdb e body w)) = unhandled w"
proof (cases "formatted_of body")
  case None
  then show ?thesis by (simp add: updateRtdb_def)
next
  case (Some hb)
  obtain h b where hb: "hb = (h, b)" by (cases hb)
  have u: "posts (snd (updateUser h b v)) = posts v
      \<and> unhandled (snd (updateUser h b v)) = unhandled v" for v
    unfolding updateUser_def by (rule with_ref_frame) (simp add: updateUser_at_frame)
  have c: "posts (snd (updateCounter h v)) = posts v
      \<and> unhandled (snd (updateCounter h v)) = unhandled v" for v
    unfolding updateCounter_def by (rule with_ref_frame) (simp add: updateCounter_at_frame)
  have i: "posts (snd (updateInstallDate h now v)) = posts v
      \<and> unhandled (snd (updateInstallDate h now v)) = unhandled v" for v now
    unfolding updateInstallDate_def
    by (rule with_ref_frame) (simp add: updateInstallDate_at_frame)
  have l: "posts (snd (with_ref h (\<lambda>reference. rtdb_set (put_lastModified reference x)) v)) = posts v
      \<and> unhandled (snd (with_ref h (\<lambda>reference. rtdb_set (put_lastModified reference x)) v))
          = unhandled v" for v x
    by (rule with_ref_frame) simp
  show ?thesis using Some hb by (simp add: updateRtdb_def Let_def u c i l)
qed

lemma updateRtdb_object: "fst (updateRtdb e (Object b) w) = Inr ()"
  by (simp add: updateRtdb_def formatted_of_def Let_def)

lemma updateRtdb_falsy: "fst (updateRtdb e (ObjectHostnameNotString False b) w) = Inr ()"
  by (simp add: updateRtdb_def formatted_of_def Let_def)

lemma updateRtdb_raises:
  "formatted_of body = None \<Longrightarrow> updateRtdb e body w = (Inl TypeError, w)"
  by (simp add: updateRtdb_def)

lemma updateSummary_frame:
  "posts (snd (updateSummary e w)) = posts w
   \<and> unhandled (snd (updateSummary e w)) = unhandled w"
  by (auto simp: updateSummary_def Let_def
      split: prod.splits sum.splits option.splits dest!: rtdb_getD rtdb_setD)

subsection \<open>The recorder's answer\<close>

lemma unawaited_posts [simp]: "posts (unawaited r) = posts (snd r)"
  by (auto simp: unawaited_def split: prod.splits sum.splits)

lemma user_handler_object:
  assumes "req_method req = ''POST''" "req_body req = JsonObject b"
  shows "fst (user_handler e req w) = \<lparr>sent = Some (respond 200 AddedToDatabase), raised = None\<rparr>"
    and "posts (snd (user_handler e req w)) = posts w"
proof -
  obtain v1 where u: "updateRtdb e (Object b) w = (Inr (), v1)"
    using updateRtdb_object [of e b w] by (cases "updateRtdb e (Object b) w") auto
  have p1: "posts v1 = posts w" using updateRtdb_frame [of e "Object b" w] u by simp
  show "fst (user_handler e req w) = \<lparr>sent = Some (respond 200 AddedToDatabase), raised = None\<rparr>"
    using assms u by (simp add: user_handler_def JSON_parse_def)
  show "posts (snd (user_handler e req w)) = posts w"
    using assms u p1 updateSummary_frame [of e v1] by (simp add: user_handler_def JSON_parse_def)
qed

lemma user_handler_raises:
  assumes "req_method req = ''POST''" "JSON_parse (req_body req) = Inr body"
    "formatted_of body = None"
    "GAS_END_POINT e = Some endpoint" "endpoint \<noteq> []" "\<not> fetch_rejects e"
  shows "fst (user_handler e req w) = \<lparr>sent = Some (respond 500 UnexpectedError), raised = None\<rparr>"
    and "posts (snd (user_handler e req w)) =
         posts w @ [\<lparr>url = endpoint, http_method = ''POST'', payload_body = body,
                     payload_from = ''ribbit-next-app''\<rparr>]"
proof -
  show "fst (user_handler e req w) = \<lparr>sent = Some (respond 500 UnexpectedError), raised = None\<rparr>"
    using assms
    by (simp add: user_handler_def updateRtdb_raises postToGAS_def Let_def)
  show "posts (snd (user_handler e req w)) =
         posts w @ [\<lparr>url = endpoint, http_method = ''POST'', payload_body = body,
                     payload_from = ''ribbit-next-app''\<rparr>]"
    using assms
    by (simp add: user_handler_def updateRtdb_raises postToGAS_def Let_def updateSummary_frame)
qed

subsection \<open>Running the handlers on a given world\<close>

lemmas handler_steps =
  user_handler_def counter_handler_def JSON_parse_def updateRtdb_def formatted_of_def
  updateUser_def updateCounter_def updateInstallDate_def updateUser_at_def
  updateCounter_at_def updateInstallDate_at_def updateSummary_def getResponseFromRtdb_def
  postToGAS_def unawaited_def with_ref_def rtdb_ref_def invalid_path_char_def
  rtdb_get_def rtdb_set_def rtdb_update_def attempt_def catch_log_def
  Let_def formattedHostname_def hostname_or_default_def match_here_def match_domain_def
  users_at_def counter_at_def installDate_at_def summary_at_def lastModified_at_def
  put_user_def put_counter_def put_installDate_def put_lastModified_def put_summary_def
  merge_pluginNames_def or_empty_def uniq_def DateTime_local_def plus_hours_def
  toISODate_def toUnixInteger_def respond_def
  fresh_world_def empty_rtdb_def afternoon_def next_morning_def post_of_def body_of_def

lemmas handler_eval = handler_steps js_plus_def round_to_double_def

lemma updateRtdb_guarded: "formatted_of body \<noteq> None \<Longrightarrow> fst (updateRtdb e body w) = Inr ()"
  by (auto simp: updateRtdb_def Let_def)

lemma user_handler_guarded:
  assumes "req_method req = ''POST''" "JSON_parse (req_body req) = Inr body"
    "formatted_of body \<noteq> None"
  shows "fst (user_handler e req w) = \<lparr>sent = Some (respond 200 AddedToDatabase), raised = None\<rparr>"
    and "posts (snd (user_handler e req w)) = posts w"
proof -
  obtain v1 where u: "updateRtdb e body w = (Inr (), v1)"
    using updateRtdb_guarded [OF assms(3), of e w] by (cases "updateRtdb e body w") auto
  have p1: "posts v1 = posts w" using updateRtdb_frame [of e body w] u by simp
  show "fst (user_handler e req w) = \<lparr>sent = Some (respond 200 AddedToDatabase), raised = None\<rparr>"
    using assms u by (simp add: user_handler_def)
  show "posts (snd (user_handler e req w)) = posts w"
    using assms u p1 updateSummary_frame [of e v1] by (simp add: user_handler_def)
qed

subsection \<open>Failure-free recorder calls\<close>

lemma records_hostE:
  assumes "records_host h c"
  obtains e req b where "c = Recorder e req" "req_method req = ''POST''"
    "req_body req = JsonObject b" "formattedHostname (hostname b) = h" "plugins_of c = or_empty (pluginNames b)"
proof (cases c)
  case (Recorder e req)
  with assms show ?thesis
    by (cases "req_body req") (auto intro: that)
next
  case (Reader e req)
  with assms show ?thesis by simp
qed

lemma run_call_healthy:
  "faults w = [] \<Longrightarrow> req_method req = ''POST'' \<Longrightarrow> req_body req = JsonObject b \<Longrightarrow>
   rtdb_ref (formattedHostname (hostname b)) = RefChild k \<Longrightarrow>
   run_call (Recorder e req) w = w\<lparr>db := recorder_step e k b (db w)\<rparr>"
  by (simp add: user_handler_healthy)

lemma summary_step_frame [simp]:
  "kintone_users (summary_step now d) = kintone_users d"
  "kintone_counter (summary_step now d) = kintone_counter d"
  "kintone_installDate (summary_step now d) = kintone_installDate d"
  "kintone_lastModified (summary_step now d) = kintone_lastModified d"
  by (simp_all add: summary_step_def put_summary_def)

lemma user_step_frame [simp]:
  "kintone_counter (user_step h b d) = kintone_counter d"
  "kintone_installDate (user_step h b d) = kintone_installDate d"
  "kintone_lastModified (user_step h b d) = kintone_lastModified d"
  "kintone_summary (user_step h b d) = kintone_summary d"
  by (simp_all add: user_step_def put_user_def merge_pluginNames_def split: option.splits)

lemma counter_step_frame [simp]:
  "kintone_users (counter_step h d) = kintone_users d"
  "kintone_installDate (counter_step h d) = kintone_installDate d"
  "kintone_lastModified (counter_step h d) = kintone_lastModified d"
  "kintone_summary (counter_step h d) = kintone_summary d"
  by (simp_all add: counter_step_def put_counter_def split: option.splits)

lemma installDate_step_frame [simp]:
  "kintone_users (installDate_step h x d) = kintone_users d"
  "kintone_counter (installDate_step h x d) = kintone_counter d"
  "kintone_lastModified (installDate_step h x d) = kintone_lastModified d"
  "kintone_summary (installDate_step h x d) = kintone_summary d"
  by (simp_all add: installDate_step_def put_installDate_def)

lemma put_lastModified_frame [simp]:
  "kintone_users (put_lastModified h x d) = kintone_users d"
  "kintone_counter (put_lastModified h x d) = kintone_counter d"
  "kintone_installDate (put_lastModified h x d) = kintone_installDate d"
  "kintone_summary (put_lastModified h x d) = kintone_summary d"
  by (simp_all add: put_lastModified_def)

lemma host_step_summary [simp]: "kintone_summary (host_step e k b d) = kintone_summary d"
  by (simp add: host_step_def Let_def)

lemma recorder_step_counter:
  "counter_at k (recorder_step e k b d) =
     Some (case counter_at k d of None \<Rightarrow> 1 | Some v \<Rightarrow> js_plus v 1)"
  by (simp add: recorder_step_def host_step_def Let_def counter_at_def counter_step_def
      put_counter_def update_conv' split: option.splits)

lemma recorder_step_installDate:
  "installDate_at k (recorder_step e k b d) =
     Some (case installDate_at k d of
             None \<Rightarrow> toISODate (DateTime_local e) | Some x \<Rightarrow> x)"
  by (simp add: recorder_step_def host_step_def Let_def installDate_at_def installDate_step_def
      put_installDate_def update_conv' split: option.splits)

lemma recorder_step_users:
  "kintone_users (recorder_step e k b d) =
     kintone_users (user_step k b d)"
  by (simp add: recorder_step_def host_step_def Let_def)

lemma recorder_step_plugins:
  "stored_pluginNames k (recorder_step e k b d) =
     (case users_at k d of
        None \<Rightarrow> or_empty (pluginNames b)
      | Some u \<Rightarrow>
          if list_all (\<lambda>plugin. plugin \<in> set (user_pluginNames u)) (or_empty (pluginNames b))
          then user_pluginNames u
          else uniq (or_empty (pluginNames b) @ user_pluginNames u))"
  by (simp add: stored_pluginNames_def users_at_def recorder_step_users user_step_def
      put_user_def merge_pluginNames_def update_conv' split: option.splits)

lemma recorder_step_has_user:
  "users_at k (recorder_step e k b d) \<noteq> None"
  by (simp add: users_at_def recorder_step_users user_step_def
      put_user_def merge_pluginNames_def update_conv' split: option.splits)

lemma registered_is_stored: "registered_plugins h d = set (stored_pluginNames h d)"
  by (simp add: registered_plugins_def stored_pluginNames_def split: option.splits)

lemma recorder_step_registered:
  "registered_plugins k (recorder_step e k b d) =
     registered_plugins k d \<union> set (or_empty (pluginNames b))"
  unfolding registered_is_stored recorder_step_plugins
  by (auto simp: stored_pluginNames_def list_all_iff split: option.splits)

lemma recorder_step_distinct:
  "distinct (stored_pluginNames k d) \<Longrightarrow>
   users_at k d = None \<longrightarrow> distinct (or_empty (pluginNames b)) \<Longrightarrow>
   distinct (stored_pluginNames k (recorder_step e k b d))"
  unfolding recorder_step_plugins
  by (auto simp: stored_pluginNames_def split: option.splits)

lemma js_plus_exact: "\<bar>a + b\<bar> \<le> 2 ^ 53 \<Longrightarrow> js_plus a b = a + b"
  by (simp add: js_plus_def round_to_double_def)

lemma run_call_records:
  assumes "faults w = []" "records_host h c" "rtdb_ref h = RefChild k"
  shows "faults (run_call c w) = []"
    and "counter_at k (db (run_call c w)) =
           Some (case counter_at k (db w) of None \<Rightarrow> 1 | Some v \<Rightarrow> js_plus v 1)"
    and "registered_plugins k (db (run_call c w)) =
           registered_plugins k (db w) \<union> set (plugins_of c)"
    and "users_at k (db (run_call c w)) \<noteq> None"
    and "distinct (stored_pluginNames k (db w)) \<Longrightarrow>
         (users_at k (db w) = None \<Longrightarrow> distinct (plugins_of c)) \<Longrightarrow>
         distinct (stored_pluginNames k (db (run_call c w)))"
    and "beyond (run_call c w) = beyond w"
proof -
  from assms(2) obtain e req b where c: "c = Recorder e req" "req_method req = ''POST''"
    "req_body req = JsonObject b" "formattedHostname (hostname b) = h"
    "plugins_of c = or_empty (pluginNames b)"
    by (rule records_hostE)
  have "rtdb_ref (formattedHostname (hostname b)) = RefChild k" using c(4) assms(3) by simp
  from run_call_healthy [OF assms(1) c(2) c(3) this, of e]
  have r: "run_call c w = w\<lparr>db := recorder_step e k b (db w)\<rparr>" using c(1) by simp
  show "faults (run_call c w) = []" using r assms(1) by simp
  show "beyond (run_call c w) = beyond w" using r by simp
  show "counter_at k (db (run_call c w)) =
           Some (case counter_at k (db w) of None \<Rightarrow> 1 | Some v \<Rightarrow> js_plus v 1)"
    using r recorder_step_counter [of k e b "db w"] by simp
  show "registered_plugins k (db (run_call c w)) =
           registered_plugins k (db w) \<union> set (plugins_of c)"
    using r recorder_step_registered [of k e b "db w"] c(5) by simp
  show "users_at k (db (run_call c w)) \<noteq> None"
    using r recorder_step_has_user [of k e b "db w"] by simp
  show "distinct (stored_pluginNames k (db (run_call c w)))"
    if "distinct (stored_pluginNames k (db w))"
      "users_at k (db w) = None \<Longrightarrow> distinct (plugins_of c)"
    using r recorder_step_distinct [of k "db w" b e] c(5) that by auto
qed

lemma counter_after_calls:
  "faults w = [] \<Longrightarrow> rtdb_ref h = RefChild k \<Longrightarrow> records_host h c \<Longrightarrow>
   list_all (records_host h) cs \<Longrightarrow>
   base = (case counter_at k (db w) of None \<Rightarrow> 0 | Some v \<Rightarrow> v) \<Longrightarrow> 0 \<le> base \<Longrightarrow>
   base + 1 + int (length cs) \<le> 2 ^ 53 \<Longrightarrow>
   counter_at k (db (run_calls (c # cs) w)) = Some (base + 1 + int (length cs))"
proof (induction cs arbitrary: c w base)
  case Nil
  then show ?case
    using run_call_records(2) [of w h c k]
    by (auto simp: js_plus_exact split: option.splits)
next
  case (Cons c' cs)
  let ?w = "run_call c w"
  have f: "faults ?w = []" using Cons.prems run_call_records(1) [of w h c k] by simp
  have "\<bar>base + 1\<bar> \<le> 2 ^ 53" using Cons.prems by simp
  then have k: "counter_at k (db ?w) = Some (base + 1)"
    using Cons.prems run_call_records(2) [of w h c k]
    by (auto simp: js_plus_exact split: option.splits)
  have "counter_at k (db (run_calls (c' # cs) ?w)) = Some ((base + 1) + 1 + int (length cs))"
    using Cons.prems f k by (intro Cons.IH) simp_all
  then show ?case by simp
qed

lemma plugins_after_calls:
  "faults w = [] \<Longrightarrow> rtdb_ref h = RefChild k \<Longrightarrow> list_all (records_host h) cs \<Longrightarrow>
   registered_plugins k (db (run_calls cs w)) =
     registered_plugins k (db w) \<union> (\<Union>c \<in> set cs. set (plugins_of c))"
proof (induction cs arbitrary: w)
  case Nil
  show ?case by simp
next
  case (Cons c cs)
  have "registered_plugins k (db (run_calls cs (run_call c w))) =
     registered_plugins k (db (run_call c w)) \<union> (\<Union>c \<in> set cs. set (plugins_of c))"
    using Cons.prems run_call_records(1) [of w h c k] by (intro Cons.IH) simp_all
  then show ?case using Cons.prems run_call_records(3) [of w h c k] by auto
qed

lemma distinct_after_calls:
  "faults w = [] \<Longrightarrow> rtdb_ref h = RefChild k \<Longrightarrow> list_all (records_host h) cs \<Longrightarrow>
   distinct (stored_pluginNames k (db w)) \<Longrightarrow>
   (users_at k (db w) = None \<Longrightarrow> cs \<noteq> [] \<Longrightarrow> distinct (plugins_of (hd cs))) \<Longrightarrow>
   distinct (stored_pluginNames k (db (run_calls cs w)))"
proof (induction cs arbitrary: w)
  case Nil
  then show ?case by simp
next
  case (Cons c cs)
  let ?w = "run_call c w"
  have rc: "records_host h c" using Cons.prems by simp
  have f: "faults ?w = []" using Cons.prems rc run_call_records(1) [of w h c k] by simp
  have u: "users_at k (db ?w) \<noteq> None"
    using Cons.prems rc run_call_records(4) [of w h c k] by simp
  have d: "distinct (stored_pluginNames k (db ?w))"
    using Cons.prems rc by (intro run_call_records(5) [of w h c k]) simp_all
  have "distinct (stored_pluginNames k (db (run_calls cs ?w)))"
    using Cons.prems f u d by (intro Cons.IH) simp_all
  then show ?case by simp
qed

lemma beyond_after_calls:
  "faults w = [] \<Longrightarrow> rtdb_ref h = RefChild k \<Longrightarrow> list_all (records_host h) cs \<Longrightarrow>
   beyond (run_calls cs w) = beyond w"
proof (induction cs arbitrary: w)
  case Nil
  show ?case by simp
next
  case (Cons c cs)
  have "beyond (run_calls cs (run_call c w)) = beyond (run_call c w)"
    using Cons.prems run_call_records(1) [of w h c k] by (intro Cons.IH) simp_all
  then show ?case using Cons.prems run_call_records(6) [of w h c k] by simp
qed

subsection \<open>Calls within the model\<close>

lemma attempt_beyond: "attempt w = (ok, w') \<Longrightarrow> beyond w' = beyond w"
  by (auto simp: attempt_def split: list.splits nat.splits)

lemma rtdb_get_beyond [simp]: "beyond (snd (rtdb_get r w)) = beyond w"
  by (cases "attempt w") (auto simp: rtdb_get_def dest: attempt_beyond)

lemma rtdb_set_beyond [simp]: "beyond (snd (rtdb_set f w)) = beyond w"
  by (cases "attempt w") (auto simp: rtdb_set_def dest: attempt_beyond)

lemma rtdb_get_beyondD: "rtdb_get r w = (x, w') \<Longrightarrow> beyond w' = beyond w"
  by (metis rtdb_get_beyond snd_conv)

lemma rtdb_set_beyondD: "rtdb_set f w = (x, w') \<Longrightarrow> beyond w' = beyond w"
  by (metis rtdb_set_beyond snd_conv)

lemma catch_log_beyond [simp]: "beyond (catch_log l r) = beyond (snd r)"
  by (auto simp: catch_log_def split: prod.splits sum.splits)

lemma unawaited_beyond [simp]: "beyond (unawaited r) = beyond (snd r)"
  by (auto simp: unawaited_def split: prod.splits sum.splits)

lemma updateUser_at_beyond: "beyond (snd (updateUser_at k b w)) = beyond w"
  by (auto simp: updateUser_at_def Let_def rtdb_update_is_set
      split: prod.splits sum.splits option.splits dest!: rtdb_get_beyondD rtdb_set_beyondD)

lemma updateCounter_at_beyond: "beyond (snd (updateCounter_at k w)) = beyond w"
  by (auto simp: updateCounter_at_def
      split: prod.splits sum.splits option.splits dest!: rtdb_get_beyondD rtdb_set_beyondD)

lemma updateInstallDate_at_beyond: "beyond (snd (updateInstallDate_at k now w)) = beyond w"
  by (auto simp: updateInstallDate_at_def
      split: prod.splits sum.splits option.splits dest!: rtdb_get_beyondD rtdb_set_beyondD)

lemma with_ref_beyond:
  assumes "rtdb_ref h \<noteq> RefElsewhere" "\<And>k v. beyond (snd (step k v)) = beyond v"
  shows "beyond (snd (with_ref h step w)) = beyond w"
  using assms by (cases "rtdb_ref h") (simp_all add: with_ref_def)

lemma updateRtdb_beyond:
  assumes "case formatted_of body of None \<Rightarrow> True | Some (h, b) \<Rightarrow> rtdb_ref h \<noteq> RefElsewhere"
  shows "beyond (snd (updateRtdb e body w)) = beyond w"
proof (cases "formatted_of body")
  case None
  then show ?thesis by (simp add: updateRtdb_def)
next
  case (Some hb)
  obtain h b where hb: "hb = (h, b)" by (cases hb)
  with assms Some have r: "rtdb_ref h \<noteq> RefElsewhere" by simp
  have u: "beyond (snd (updateUser h b v)) = beyond v" for v
    unfolding updateUser_def by (rule with_ref_beyond [OF r]) (rule updateUser_at_beyond)
  have c: "beyond (snd (updateCounter h v)) = beyond v" for v
    unfolding updateCounter_def by (rule with_ref_beyond [OF r]) (rule updateCounter_at_beyond)
  have i: "beyond (snd (updateInstallDate h now v)) = beyond v" for v now
    unfolding updateInstallDate_def
    by (rule with_ref_beyond [OF r]) (rule updateInstallDate_at_beyond)
  have l: "beyond (snd (with_ref h (\<lambda>reference. rtdb_set (put_lastModified reference x)) v))
      = beyond v" for v x
    by (rule with_ref_beyond [OF r]) simp
  show ?thesis using Some hb by (simp add: updateRtdb_def Let_def u c i l)
qed

lemma updateSummary_beyond [simp]: "beyond (snd (updateSummary e w)) = beyond w"
  by (auto simp: updateSummary_def Let_def
      split: prod.splits sum.splits option.splits dest!: rtdb_get_beyondD rtdb_set_beyondD)

lemma postToGAS_beyond [simp]: "beyond (snd (postToGAS e body w)) = beyond w"
  by (simp add: postToGAS_def Let_def split: option.splits)

lemma getResponseFromRtdb_beyond [simp]: "beyond (snd (getResponseFromRtdb e w)) = beyond w"
  by (auto simp: getResponseFromRtdb_def Let_def
      split: prod.splits sum.splits option.splits dest!: rtdb_get_beyondD rtdb_set_beyondD)

lemma postToGAS_beyondD: "postToGAS e body w = (r, w') \<Longrightarrow> beyond w' = beyond w"
  by (metis postToGAS_beyond snd_conv)

lemma counter_handler_beyond: "beyond (snd (counter_handler e req w)) = beyond w"
proof (cases "getResponseFromRtdb e w")
  case (Pair r v)
  then have "beyond v = beyond w" using getResponseFromRtdb_beyond [of e w] by simp
  with Pair show ?thesis by (simp add: counter_handler_def split: sum.splits)
qed

lemma user_handler_beyond:
  assumes "within_model (Recorder e req)"
  shows "beyond (snd (user_handler e req w)) = beyond w"
proof (cases "req_method req = ''POST''")
  case False
  then show ?thesis by (simp add: user_handler_def)
next
  case post: True
  show ?thesis
  proof (cases "JSON_parse (req_body req)")
    case (Inl err)
    with post show ?thesis by (simp add: user_handler_def)
  next
    case (Inr body)
    have "case formatted_of body of None \<Rightarrow> True | Some (h, b) \<Rightarrow> rtdb_ref h \<noteq> RefElsewhere"
      using assms post Inr by (auto simp: within_model_def split: option.splits)
    then have u: "beyond (snd (updateRtdb e body w)) = beyond w" by (rule updateRtdb_beyond)
    obtain r1 v1 where r: "updateRtdb e body w = (r1, v1)" by (cases "updateRtdb e body w")
    with u have b1: "beyond v1 = beyond w" by simp
    show ?thesis
    proof (cases r1)
      case (Inr u)
      with post \<open>JSON_parse (req_body req) = Inr body\<close> r b1 show ?thesis
        by (simp add: user_handler_def)
    next
      case (Inl err)
      let ?w1 = "v1\<lparr>logs := logs v1 @ [RtdbUpdateError err]\<rparr>"
      obtain r2 v2 where g: "postToGAS e body ?w1 = (r2, v2)" by (cases "postToGAS e body ?w1")
      then have "beyond v2 = beyond ?w1" by (rule postToGAS_beyondD)
      with b1 have "beyond v2 = beyond w" by simp
      with post \<open>JSON_parse (req_body req) = Inr body\<close> r Inl g show ?thesis
        by (simp add: user_handler_def split: sum.splits)
    qed
  qed
qed

lemma run_call_beyond: "within_model c \<Longrightarrow> beyond (run_call c w) = beyond w"
  by (cases c) (simp_all add: user_handler_beyond counter_handler_beyond)

lemma run_calls_beyond: "list_all within_model cs \<Longrightarrow> beyond (run_calls cs w) = beyond w"
  by (induction cs arbitrary: w) (simp_all add: run_call_beyond)

subsection \<open>Numbers at the limit of exact integers\<close>

lemma floorlog_at_limit: "floorlog 2 (9007199254740993 :: nat) = 54"
proof (rule antisym)
  show "floorlog 2 (9007199254740993 :: nat) \<le> 54"
    by (simp add: floorlog_le_iff)
  have "(2 :: nat) ^ (54 - 1) \<le> 9007199254740993" by simp
  then show "54 \<le> floorlog 2 (9007199254740993 :: nat)"
    by (rule floorlog_geI) simp
qed

lemma js_plus_at_limit: "js_plus 9007199254740992 1 = 9007199254740992"
  by (simp add: js_plus_def round_to_double_def floorlog_at_limit Let_def)

lemma two_53: "(2 :: int) ^ 53 = 9007199254740992"
  by simp

section \<open>The claims\<close>

text \<open>
  C4 (as amended). The host id is the hostname (or \<open>___undefined\<close> when the hostname
  is absent or empty) with the leftmost match of the platform pattern removed and every
  dot replaced by \<open>_dot_\<close>. For every hostname in which the pattern matches only up to
  the end of the string, this is the host id as the specification words it: the platform
  suffix stripped, then the dots replaced. \<open>foo.cybozu.com\<close> and \<open>foo.s.kintone.com\<close>
  give \<open>foo\<close>, \<open>a.b.cybozu.com\<close> gives \<open>a_dot_b\<close>, and an absent or empty hostname
  gives \<open>___undefined\<close>.
\<close>

theorem host_id_of_hostname:
  "(platform_only_at_end (hostname_or_default h) \<longrightarrow> formattedHostname h = spec_host_id h)
   \<and> formattedHostname (Some ''foo.cybozu.com'') = ''foo''
   \<and> formattedHostname (Some ''foo.s.kintone.com'') = ''foo''
   \<and> formattedHostname (Some ''a.b.cybozu.com'') = ''a_dot_b''
   \<and> formattedHostname None = ''___undefined''
   \<and> formattedHostname (Some []) = ''___undefined''"
proof (intro conjI impI)
  show "formattedHostname h = spec_host_id h" if "platform_only_at_end (hostname_or_default h)"
    using that by (simp add: formattedHostname_def spec_host_id_def replace_first_is_strip)
  show "formattedHostname (Some ''foo.cybozu.com'') = ''foo''"
    by (simp add: formattedHostname_def hostname_or_default_def match_here_def match_domain_def)
  show "formattedHostname (Some ''foo.s.kintone.com'') = ''foo''"
    by (simp add: formattedHostname_def hostname_or_default_def match_here_def match_domain_def)
  show "formattedHostname (Some ''a.b.cybozu.com'') = ''a_dot_b''"
    by (simp add: formattedHostname_def hostname_or_default_def match_here_def match_domain_def)
  show "formattedHostname None = ''___undefined''"
    by (simp add: formattedHostname_def hostname_or_default_def match_here_def match_domain_def)
  show "formattedHostname (Some []) = ''___undefined''"
    by (simp add: formattedHostname_def hostname_or_default_def match_here_def match_domain_def)
qed

theorem host_id_of_hostname_witness:
  "platform_only_at_end (hostname_or_default (Some ''a.b.s.cybozu.com''))
   \<and> formattedHostname (Some ''a.b.s.cybozu.com'') = ''a_dot_b''
   \<and> spec_host_id (Some ''a.b.s.cybozu.com'') = ''a_dot_b''"
proof -
  have p: "platform_only_at_end (hostname_or_default (Some ''a.b.s.cybozu.com''))"
    by (simp add: hostname_or_default_def match_here_def match_domain_def)
  have s: "spec_host_id (Some ''a.b.s.cybozu.com'') = ''a_dot_b''"
    by (simp add: spec_host_id_def hostname_or_default_def strip_platform_suffix_def
        strip_suffix_def ends_with_def)
  from host_id_of_hostname [of "Some ''a.b.s.cybozu.com''"] p s show ?thesis by simp
qed

text \<open>
  C4 as stated fails: the pattern is not anchored at the end, so a platform string in the
  middle of a hostname is removed too, where stripping a suffix leaves it.
\<close>

theorem host_id_not_suffix_stripping:
  "formattedHostname (Some ''foo.cybozu.com.example'')
     \<noteq> spec_host_id (Some ''foo.cybozu.com.example'')"
  by (simp add: formattedHostname_def spec_host_id_def hostname_or_default_def match_here_def
      match_domain_def strip_platform_suffix_def strip_suffix_def ends_with_def)



text \<open>
  C10. A request to the recorder whose method is not POST gets no response: nothing is
  sent, nothing is raised, and the world (store, console, fallback calls) is as before.
  The reader answers a request whose method is not GET with status 400 and the fixed
  message, and leaves the world as it was.
\<close>

theorem other_methods:
  "(req_method req \<noteq> ''POST'' \<longrightarrow>
      user_handler e req w = (\<lparr>sent = None, raised = None\<rparr>, w))
   \<and> (req_method req \<noteq> ''GET'' \<longrightarrow>
      counter_handler e req w =
        (\<lparr>sent = Some (respond 400 InvalidParameter), raised = None\<rparr>, w))"
  by (simp add: user_handler_def counter_handler_def)

theorem other_methods_witness:
  "user_handler afternoon \<lparr>req_method = ''GET'', req_body = JsonObject (body_of ''foo.cybozu.com'' [])\<rparr>
     fresh_world = (\<lparr>sent = None, raised = None\<rparr>, fresh_world)
   \<and> counter_handler afternoon (post_of JsonNull) fresh_world =
       (\<lparr>sent = Some (respond 400 InvalidParameter), raised = None\<rparr>, fresh_world)"
  using other_methods [of "\<lparr>req_method = ''GET'', req_body = JsonObject (body_of ''foo.cybozu.com'' [])\<rparr>"
      afternoon fresh_world]
    other_methods [of "post_of JsonNull" afternoon fresh_world]
  by (simp add: post_of_def)

text \<open>
  C9. A POST whose body is not valid JSON is answered with status 500 and the message
  that embeds the serialized parse error; after responding the handler throws, which it
  does for no POST whose body is an object. The store is not touched.
\<close>

theorem malformed_body:
  "(req_method req = ''POST'' \<and> req_body req = Malformed \<longrightarrow>
      user_handler e req w =
        (\<lparr>sent = Some (respond 500 (UnexpectedErrorWith SyntaxError)),
          raised = Some ApiExecutionError\<rparr>, w))
   \<and> (req_method req = ''POST'' \<and> req_body req = JsonObject b \<longrightarrow>
      raised (fst (user_handler e req w)) = None)"
proof (intro conjI impI)
  assume "req_method req = ''POST'' \<and> req_body req = Malformed"
  then show "user_handler e req w =
        (\<lparr>sent = Some (respond 500 (UnexpectedErrorWith SyntaxError)),
          raised = Some ApiExecutionError\<rparr>, w)"
    by (simp add: user_handler_def JSON_parse_def)
next
  assume "req_method req = ''POST'' \<and> req_body req = JsonObject b"
  then show "raised (fst (user_handler e req w)) = None"
    by (simp add: user_handler_object)
qed

theorem malformed_body_witness:
  "user_handler afternoon (post_of Malformed) fresh_world =
     (\<lparr>sent = Some (respond 500 (UnexpectedErrorWith SyntaxError)),
       raised = Some ApiExecutionError\<rparr>, fresh_world)"
  using malformed_body [of "post_of Malformed" afternoon fresh_world]
  by (simp add: post_of_def)

text \<open>
  C6, at the input where the code departs from it. The host update succeeds (seven store
  operations) and the summary step's first read of the store fails. The response is 200
  and nothing reaches the client, but the failure is neither caught nor logged: the
  console stays empty and the rejection is left unhandled.
\<close>

theorem summary_failure_is_unhandled:
  "user_handler afternoon (post_of (JsonObject (body_of ''foo.cybozu.com'' [''a''])))
     (fresh_world\<lparr>faults := [7]\<rparr>)
   = (\<lparr>sent = Some (respond 200 AddedToDatabase), raised = None\<rparr>,
      fresh_world
        \<lparr>db := empty_rtdb
           \<lparr>kintone_users := [(''foo'', \<lparr>user_name = Some [], user_pluginNames = [''a'']\<rparr>)],
            kintone_counter := [(''foo'', 1)],
            kintone_installDate := [(''foo'', ISODate 0)],
            kintone_lastModified := [(''foo'', ISODate 0)]\<rparr>,
         logs := [],
         unhandled := [StoreError]\<rparr>)"
  by (simp add: handler_eval eval_nat_numeral)

text \<open>The reader's summary step, with the same failure: caught and logged.\<close>

lemma reader_summary_failure_is_logged:
  "counter_handler afternoon \<lparr>req_method = ''GET'', req_body = JsonNull\<rparr>
     (fresh_world\<lparr>db := empty_rtdb\<lparr>kintone_counter := [(''foo'', 1)]\<rparr>, faults := [1]\<rparr>)
   = (\<lparr>sent = Some \<lparr>status = 200, result = FetchComplete, data_counter = Some 1,
                      data_numUsers = Some 1\<rparr>, raised = None\<rparr>,
      fresh_world\<lparr>db := empty_rtdb\<lparr>kintone_counter := [(''foo'', 1)]\<rparr>,
                  logs := [SummaryError]\<rparr>)"
  by (simp add: handler_eval eval_nat_numeral)

text \<open>
  C1 (as amended). For every POST whose body gets as far as the guarded steps (an object
  of the declared type, or an object whose hostname is a falsy value), whatever store
  operations fail: the host update does not raise, the fallback endpoint is not invoked
  and the response is 200. The fallback is for a host update that raises outside its
  guarded steps, which it does when the body is \<open>null\<close> or an object whose hostname is a
  truthy value that is not a string: then, with the endpoint configured and reachable,
  the recorder invokes it exactly once, with the original body plus
  \<open>from = ribbit-next-app\<close>, and responds with status 500.
\<close>

theorem store_failure_is_not_escalated:
  "(req_method req = ''POST'' \<and> JSON_parse (req_body req) = Inr body
      \<and> formatted_of body \<noteq> None \<longrightarrow>
      fst (updateRtdb e body w) = Inr ()
      \<and> sent (fst (user_handler e req w)) = Some (respond 200 AddedToDatabase)
      \<and> posts (snd (user_handler e req w)) = posts w)
   \<and> (req_method req = ''POST'' \<and> JSON_parse (req_body req) = Inr body
        \<and> formatted_of body = None
        \<and> GAS_END_POINT e = Some endpoint \<and> endpoint \<noteq> [] \<and> \<not> fetch_rejects e \<longrightarrow>
      sent (fst (user_handler e req w)) = Some (respond 500 UnexpectedError)
      \<and> posts (snd (user_handler e req w)) =
          posts w @ [\<lparr>url = endpoint, http_method = ''POST'', payload_body = body,
                      payload_from = ''ribbit-next-app''\<rparr>])
   \<and> (formatted_of body = None \<longleftrightarrow>
        body = Null \<or> (\<exists>b. body = ObjectHostnameNotString True b))"
proof (intro conjI impI)
  assume a: "req_method req = ''POST'' \<and> JSON_parse (req_body req) = Inr body
      \<and> formatted_of body \<noteq> None"
  then show "fst (updateRtdb e body w) = Inr ()" by (simp add: updateRtdb_guarded)
  from a show "sent (fst (user_handler e req w)) = Some (respond 200 AddedToDatabase)"
    using user_handler_guarded(1) [of req body e w] by simp
  from a show "posts (snd (user_handler e req w)) = posts w"
    using user_handler_guarded(2) [of req body e w] by simp
next
  assume a: "req_method req = ''POST'' \<and> JSON_parse (req_body req) = Inr body
        \<and> formatted_of body = None
        \<and> GAS_END_POINT e = Some endpoint \<and> endpoint \<noteq> [] \<and> \<not> fetch_rejects e"
  then show "sent (fst (user_handler e req w)) = Some (respond 500 UnexpectedError)"
    using user_handler_raises(1) [of req body e endpoint w] by simp
  from a show "posts (snd (user_handler e req w)) =
          posts w @ [\<lparr>url = endpoint, http_method = ''POST'', payload_body = body,
                      payload_from = ''ribbit-next-app''\<rparr>]"
    using user_handler_raises(2) [of req body e endpoint w] by simp
next
  show "formatted_of body = None \<longleftrightarrow>
        body = Null \<or> (\<exists>b. body = ObjectHostnameNotString True b)"
    by (cases body) (auto simp: formatted_of_def)
qed

theorem store_failure_is_not_escalated_witness:
  "sent (fst (user_handler afternoon (post_of (JsonObject (body_of ''foo.cybozu.com'' [''a''])))
       (fresh_world\<lparr>faults := [0, 0, 0, 0]\<rparr>))) = Some (respond 200 AddedToDatabase)
   \<and> posts (snd (user_handler afternoon (post_of (JsonObject (body_of ''foo.cybozu.com'' [''a''])))
       (fresh_world\<lparr>faults := [0, 0, 0, 0]\<rparr>))) = []
   \<and> sent (fst (user_handler afternoon (post_of JsonNull) fresh_world))
       = Some (respond 500 UnexpectedError)
   \<and> posts (snd (user_handler afternoon (post_of JsonNull) fresh_world))
       = [\<lparr>url = ''https://gas.example/exec'', http_method = ''POST'', payload_body = Null,
           payload_from = ''ribbit-next-app''\<rparr>]
   \<and> sent (fst (user_handler afternoon
         (post_of (JsonHostnameNotString True (body_of [] [''a'']))) fresh_world))
       = Some (respond 500 UnexpectedError)
   \<and> posts (snd (user_handler afternoon
         (post_of (JsonHostnameNotString True (body_of [] [''a'']))) fresh_world))
       = [\<lparr>url = ''https://gas.example/exec'', http_method = ''POST'',
           payload_body = ObjectHostnameNotString True (body_of [] [''a'']),
           payload_from = ''ribbit-next-app''\<rparr>]"
proof -
  let ?b = "body_of ''foo.cybozu.com'' [''a'']"
  let ?ill = "body_of [] [''a'']"
  let ?url = "''https://gas.example/exec''"
  have g: "GAS_END_POINT afternoon = Some ?url" "?url \<noteq> []" "\<not> fetch_rejects afternoon"
    by (simp_all add: afternoon_def)
  have p: "posts fresh_world = []" "posts (fresh_world\<lparr>faults := [0, 0, 0, 0]\<rparr>) = []"
    by (simp_all add: fresh_world_def)
  have "req_method (post_of (JsonObject ?b)) = ''POST''
      \<and> JSON_parse (req_body (post_of (JsonObject ?b))) = Inr (Object ?b)
      \<and> formatted_of (Object ?b) \<noteq> None"
    by (simp add: post_of_def JSON_parse_def formatted_of_def)
  from store_failure_is_not_escalated [THEN conjunct1, THEN mp, OF this,
      of afternoon "fresh_world\<lparr>faults := [0, 0, 0, 0]\<rparr>"]
  have 1: "sent (fst (user_handler afternoon (post_of (JsonObject ?b))
         (fresh_world\<lparr>faults := [0, 0, 0, 0]\<rparr>))) = Some (respond 200 AddedToDatabase)"
    "posts (snd (user_handler afternoon (post_of (JsonObject ?b))
         (fresh_world\<lparr>faults := [0, 0, 0, 0]\<rparr>))) = []"
    using p by simp_all
  have "req_method (post_of JsonNull) = ''POST''
      \<and> JSON_parse (req_body (post_of JsonNull)) = Inr Null \<and> formatted_of Null = None
      \<and> GAS_END_POINT afternoon = Some ?url \<and> ?url \<noteq> [] \<and> \<not> fetch_rejects afternoon"
    using g by (simp add: post_of_def JSON_parse_def formatted_of_def)
  from store_failure_is_not_escalated [THEN conjunct2, THEN conjunct1, THEN mp, OF this,
      of fresh_world]
  have 2: "sent (fst (user_handler afternoon (post_of JsonNull) fresh_world))
       = Some (respond 500 UnexpectedError)"
    "posts (snd (user_handler afternoon (post_of JsonNull) fresh_world))
       = [\<lparr>url = ?url, http_method = ''POST'', payload_body = Null,
           payload_from = ''ribbit-next-app''\<rparr>]"
    using p by simp_all
  have "req_method (post_of (JsonHostnameNotString True ?ill)) = ''POST''
      \<and> JSON_parse (req_body (post_of (JsonHostnameNotString True ?ill)))
          = Inr (ObjectHostnameNotString True ?ill)
      \<and> formatted_of (ObjectHostnameNotString True ?ill) = None
      \<and> GAS_END_POINT afternoon = Some ?url \<and> ?url \<noteq> [] \<and> \<not> fetch_rejects afternoon"
    using g by (simp add: post_of_def JSON_parse_def formatted_of_def)
  from store_failure_is_not_escalated [THEN conjunct2, THEN conjunct1, THEN mp, OF this,
      of fresh_world]
  have 3: "sent (fst (user_handler afternoon
         (post_of (JsonHostnameNotString True ?ill)) fresh_world))
       = Some (respond 500 UnexpectedError)"
    "posts (snd (user_handler afternoon
         (post_of (JsonHostnameNotString True ?ill)) fresh_world))
       = [\<lparr>url = ?url, http_method = ''POST'',
           payload_body = ObjectHostnameNotString True ?ill,
           payload_from = ''ribbit-next-app''\<rparr>]"
    using p by simp_all
  from 1 2 3 show ?thesis by (simp only:)
qed

text \<open>
  C1 as stated fails: when the store fails in the host update (here the first four
  store operations of the call, the first one of each of the four steps), the recorder
  logs each failure, invokes no fallback and responds with status 200.
\<close>

theorem store_failure_answers_200:
  "user_handler afternoon (post_of (JsonObject (body_of ''foo.cybozu.com'' [''a''])))
     (fresh_world\<lparr>faults := [0, 0, 0, 0]\<rparr>)
   = (\<lparr>sent = Some (respond 200 AddedToDatabase), raised = None\<rparr>,
      fresh_world\<lparr>logs := [UserUpdateFailed, CounterUpdateFailed, InstallDateUpdateFailed,
                            LastModifiedUpdateFailed, CounterFetchFailed]\<rparr>)"
  by (simp add: handler_eval)

text \<open>
  C2 (as amended). In calls that do not overlap and in which no store operation fails, a
  recorder call for a host whose id refers to a child \<open>k\<close> of the collections creates
  the counter of \<open>k\<close> at 1 when there is none and adds 1 to it otherwise, in JavaScript's
  numbers: the sum is exact up to \<open>2 ^ 53\<close>, where the counter stays. So after \<open>N\<close> such
  calls, \<open>1 \<le> N \<le> 2 ^ 53\<close>, for a host that had no counter, the stored counter is \<open>N\<close>.
\<close>

theorem counter_counts_calls:
  "(faults w = [] \<and> records_host h c \<and> rtdb_ref h = RefChild k \<longrightarrow>
      counter_at k (db (run_call c w)) =
        Some (case counter_at k (db w) of None \<Rightarrow> 1 | Some v \<Rightarrow> js_plus v 1)
      \<and> beyond (run_call c w) = beyond w)
   \<and> (\<bar>v + 1\<bar> \<le> 2 ^ 53 \<longrightarrow> js_plus v 1 = v + 1)
   \<and> js_plus (2 ^ 53) 1 = 2 ^ 53
   \<and> (faults w = [] \<and> rtdb_ref h = RefChild k \<and> counter_at k (db w) = None \<and> cs \<noteq> []
        \<and> list_all (records_host h) cs \<and> int (length cs) \<le> 2 ^ 53 \<longrightarrow>
      counter_at k (db (run_calls cs w)) = Some (int (length cs))
      \<and> beyond (run_calls cs w) = beyond w)"
proof (intro conjI impI)
  assume a: "faults w = [] \<and> records_host h c \<and> rtdb_ref h = RefChild k"
  then show "counter_at k (db (run_call c w)) =
        Some (case counter_at k (db w) of None \<Rightarrow> 1 | Some v \<Rightarrow> js_plus v 1)"
    using run_call_records(2) [of w h c k] by simp
  from a show "beyond (run_call c w) = beyond w"
    using run_call_records(6) [of w h c k] by simp
next
  assume "\<bar>v + 1\<bar> \<le> 2 ^ 53"
  then show "js_plus v 1 = v + 1" by (rule js_plus_exact)
next
  show "js_plus (2 ^ 53) 1 = 2 ^ 53"
    unfolding two_53 by (rule js_plus_at_limit)
next
  assume a: "faults w = [] \<and> rtdb_ref h = RefChild k \<and> counter_at k (db w) = None \<and> cs \<noteq> []
        \<and> list_all (records_host h) cs \<and> int (length cs) \<le> 2 ^ 53"
  then obtain c cs' where cs: "cs = c # cs'" by (cases cs) auto
  with a have "counter_at k (db (run_calls (c # cs') w)) = Some (0 + 1 + int (length cs'))"
    by (intro counter_after_calls [where h = h]) simp_all
  with cs show "counter_at k (db (run_calls cs w)) = Some (int (length cs))" by simp
  from a show "beyond (run_calls cs w) = beyond w"
    using beyond_after_calls [of w h k cs] by simp
qed

theorem counter_counts_calls_witness:
  "counter_at ''foo'' (db (run_calls
      [Recorder afternoon (post_of (JsonObject (body_of ''foo.cybozu.com'' [''a'']))),
       Recorder afternoon (post_of (JsonObject (body_of ''foo.s.kintone.com'' []))),
       Recorder next_morning (post_of (JsonObject (body_of ''foo.cybozu.com'' [''b''])))]
      fresh_world)) = Some 3
   \<and> counter_at ''foo'' (db (run_call
      (Recorder afternoon (post_of (JsonObject (body_of ''foo.cybozu.com'' [''a'']))))
      fresh_world)) = Some 1
   \<and> js_plus 41 1 = 42"
proof -
  let ?c1 = "Recorder afternoon (post_of (JsonObject (body_of ''foo.cybozu.com'' [''a''])))"
  let ?c2 = "Recorder afternoon (post_of (JsonObject (body_of ''foo.s.kintone.com'' [])))"
  let ?c3 = "Recorder next_morning (post_of (JsonObject (body_of ''foo.cybozu.com'' [''b''])))"
  have h: "records_host ''foo'' ?c1" "records_host ''foo'' ?c2" "records_host ''foo'' ?c3"
    by (simp_all add: post_of_def body_of_def formattedHostname_def hostname_or_default_def
        match_here_def match_domain_def)
  have r: "rtdb_ref ''foo'' = RefChild ''foo''"
    by (simp add: rtdb_ref_def invalid_path_char_def)
  have f: "faults fresh_world = []" "counter_at ''foo'' (db fresh_world) = None"
    by (simp_all add: fresh_world_def empty_rtdb_def counter_at_def)
  have "faults fresh_world = [] \<and> records_host ''foo'' ?c1 \<and> rtdb_ref ''foo'' = RefChild ''foo''"
    using h r f by simp
  from counter_counts_calls [THEN conjunct1, THEN mp, OF this]
  have 1: "counter_at ''foo'' (db (run_call ?c1 fresh_world)) = Some 1"
    using f by simp
  have "\<bar>(41 :: int) + 1\<bar> \<le> 2 ^ 53" by simp
  from counter_counts_calls [THEN conjunct2, THEN conjunct1, THEN mp, OF this]
  have 2: "js_plus 41 1 = 42" by simp
  have "faults fresh_world = [] \<and> rtdb_ref ''foo'' = RefChild ''foo''
      \<and> counter_at ''foo'' (db fresh_world) = None \<and> [?c1, ?c2, ?c3] \<noteq> []
      \<and> list_all (records_host ''foo'') [?c1, ?c2, ?c3]
      \<and> int (length [?c1, ?c2, ?c3]) \<le> 2 ^ 53"
    using h r f by simp
  from counter_counts_calls [THEN conjunct2, THEN conjunct2, THEN conjunct2, THEN mp, OF this]
  have 3: "counter_at ''foo'' (db (run_calls [?c1, ?c2, ?c3] fresh_world)) = Some 3"
    by (simp del: run_calls.simps)
  from 1 2 3 show ?thesis by (simp only:)
qed

text \<open>
  C2 as stated fails in three ways. When the read of the counter fails, the call leaves
  a fresh host without a counter. When the host id has a character that the store's
  paths refuse (here \<open>#\<close>), every step throws and no counter is written. And a counter
  that has reached \<open>2 ^ 53\<close> is not incremented by the next call.
\<close>

theorem counter_not_counted:
  "counter_at ''foo'' (db (run_calls
      [Recorder afternoon (post_of (JsonObject (body_of ''foo.cybozu.com'' [''a''])))]
      (fresh_world\<lparr>faults := [2]\<rparr>))) = None
   \<and> kintone_counter (db (run_calls
      [Recorder afternoon (post_of (JsonObject (body_of ''foo#bar'' [''a''])))]
      fresh_world)) = []
   \<and> counter_at ''foo'' (db (run_calls
      [Recorder afternoon (post_of (JsonObject (body_of ''foo.cybozu.com'' [''a''])))]
      (fresh_world\<lparr>db := empty_rtdb\<lparr>kintone_counter := [(''foo'', 9007199254740992)]\<rparr>\<rparr>)))
     = Some 9007199254740992"
proof (intro conjI)
  show "counter_at ''foo'' (db (run_calls
      [Recorder afternoon (post_of (JsonObject (body_of ''foo.cybozu.com'' [''a''])))]
      (fresh_world\<lparr>faults := [2]\<rparr>))) = None"
    by (simp add: handler_steps)
  show "kintone_counter (db (run_calls
      [Recorder afternoon (post_of (JsonObject (body_of ''foo#bar'' [''a''])))]
      fresh_world)) = []"
    by (simp add: handler_steps)
  show "counter_at ''foo'' (db (run_calls
      [Recorder afternoon (post_of (JsonObject (body_of ''foo.cybozu.com'' [''a''])))]
      (fresh_world\<lparr>db := empty_rtdb\<lparr>kintone_counter := [(''foo'', 9007199254740992)]\<rparr>\<rparr>)))
     = Some 9007199254740992"
    by (simp add: handler_steps js_plus_at_limit)
qed

text \<open>
  C8 (as amended). An install date that is stored stays as it is under every sequence of
  recorder and reader calls that address only children of the collections, whatever their
  requests, their dates and the failures of the store. A recorder call in which no store
  operation fails, for a host whose id refers to a child of the collections and that has
  no install date, stores the ISO date of the call's local time.
\<close>

theorem installDate_is_immutable:
  "(\<not> beyond w \<and> list_all within_model cs \<and> installDate_at k (db w) = Some x \<longrightarrow>
      installDate_at k (db (run_calls cs w)) = Some x \<and> \<not> beyond (run_calls cs w))
   \<and> (faults v = [] \<and> records_host h (Recorder e req) \<and> rtdb_ref h = RefChild k
        \<and> installDate_at k (db v) = None \<longrightarrow>
      installDate_at k (db (run_call (Recorder e req) v)) = Some (toISODate (DateTime_local e)))"
proof (intro conjI impI)
  assume a: "\<not> beyond w \<and> list_all within_model cs \<and> installDate_at k (db w) = Some x"
  then show "installDate_at k (db (run_calls cs w)) = Some x"
    using evolves_installDate [OF evolves_run_calls] by simp
  from a show "\<not> beyond (run_calls cs w)" by (simp add: run_calls_beyond)
next
  assume a: "faults v = [] \<and> records_host h (Recorder e req) \<and> rtdb_ref h = RefChild k
        \<and> installDate_at k (db v) = None"
  then obtain b where b: "req_method req = ''POST''" "req_body req = JsonObject b"
    "formattedHostname (hostname b) = h"
    by (cases "req_body req") auto
  with a have "run_call (Recorder e req) v = v\<lparr>db := recorder_step e k b (db v)\<rparr>"
    by (intro run_call_healthy) simp_all
  with a show "installDate_at k (db (run_call (Recorder e req) v)) = Some (toISODate (DateTime_local e))"
    using recorder_step_installDate [of k e b "db v"] by simp
qed

theorem installDate_is_immutable_witness:
  "installDate_at ''foo'' (db (run_call
      (Recorder afternoon (post_of (JsonObject (body_of ''foo.cybozu.com'' [''a'']))))
      fresh_world)) = Some (ISODate 0)
   \<and> installDate_at ''foo'' (db (run_calls
      [Recorder next_morning (post_of (JsonObject (body_of ''foo.cybozu.com'' [''b'']))),
       Reader next_morning \<lparr>req_method = ''GET'', req_body = JsonNull\<rparr>]
      (run_call (Recorder afternoon (post_of (JsonObject (body_of ''foo.cybozu.com'' [''a'']))))
        fresh_world))) = Some (ISODate 0)"
proof -
  let ?r1 = "post_of (JsonObject (body_of ''foo.cybozu.com'' [''a'']))"
  let ?c1 = "Recorder afternoon ?r1"
  let ?c2 = "Recorder next_morning (post_of (JsonObject (body_of ''foo.cybozu.com'' [''b''])))"
  let ?c3 = "Reader next_morning \<lparr>req_method = ''GET'', req_body = JsonNull\<rparr>"
  let ?w1 = "run_call ?c1 fresh_world"
  have fmt: "formattedHostname (Some ''foo.cybozu.com'') = ''foo''"
    by (simp add: formattedHostname_def hostname_or_default_def match_here_def match_domain_def)
  have r: "rtdb_ref ''foo'' = RefChild ''foo''"
    by (simp add: rtdb_ref_def invalid_path_char_def)
  have h: "records_host ''foo'' ?c1" by (simp add: post_of_def body_of_def fmt)
  have m: "within_model ?c1" "within_model ?c2" "within_model ?c3"
    by (simp_all add: within_model_def post_of_def body_of_def JSON_parse_def formatted_of_def
        fmt r)
  have f: "faults fresh_world = []" "installDate_at ''foo'' (db fresh_world) = None"
    "\<not> beyond fresh_world"
    by (simp_all add: fresh_world_def empty_rtdb_def installDate_at_def)
  have t: "toISODate (DateTime_local afternoon) = ISODate 0"
    by (simp add: toISODate_def DateTime_local_def afternoon_def)
  have "faults fresh_world = [] \<and> records_host ''foo'' ?c1 \<and> rtdb_ref ''foo'' = RefChild ''foo''
        \<and> installDate_at ''foo'' (db fresh_world) = None"
    using h r f by simp
  from installDate_is_immutable [THEN conjunct2, THEN mp, OF this]
  have 1: "installDate_at ''foo'' (db ?w1) = Some (ISODate 0)" using t by simp
  have b1: "\<not> beyond ?w1" using f(3) run_call_beyond [OF m(1), of fresh_world] by simp
  have "\<not> beyond ?w1 \<and> list_all within_model [?c2, ?c3]
      \<and> installDate_at ''foo'' (db ?w1) = Some (ISODate 0)"
    using b1 m 1 by simp
  from installDate_is_immutable [THEN conjunct1, THEN mp, OF this]
  have 2: "installDate_at ''foo'' (db (run_calls [?c2, ?c3] ?w1)) = Some (ISODate 0)" by simp
  from 1 2 show ?thesis by (simp only:)
qed

text \<open>
  C8 as stated fails: when the write of the install date fails, the first call for a
  host leaves it without an install date; and when the host id has a character that the
  store's paths refuse (here \<open>#\<close>), the step throws and no install date is written.
\<close>

theorem installDate_not_written:
  "installDate_at ''foo'' (db (run_call
      (Recorder afternoon (post_of (JsonObject (body_of ''foo.cybozu.com'' [''a'']))))
      (fresh_world\<lparr>faults := [5]\<rparr>))) = None
   \<and> kintone_installDate (db (run_call
      (Recorder afternoon (post_of (JsonObject (body_of ''foo#bar'' [''a'']))))
      fresh_world)) = []"
  by (simp add: handler_steps)

end
